theory Spec2Isabelle
  imports Complex_Main
begin

section \<open>Alignment layout model: one layout position\<close>

text \<open>
  The class \<open>LayoutPos\<close> of the mate-pair merger. Its fields are C \<open>int\<close>s and
  \<open>char\<close>s holding ASCII codes (\<open>78\<close> is N, \<open>77\<close> is M, \<open>68\<close> is D, \<open>83\<close> is S,
  \<open>73\<close> is I). They are modelled as \<open>int\<close>: the code only compares them, copies them and
  adds two agreement counts. That addition is the one of the machine, a 32-bit addition
  in two's complement, and is written out as \<open>c_int_add\<close>.
\<close>

record LayoutPos =
  pos :: int
  readPos :: int
  base :: int
  operation :: int
  quality :: int
  agreement :: int
  merged :: bool
  mergeAgreed :: int

text \<open>
  \<open>LayoutPos.__init__\<close>: every field is stored as given, except the quality, which is
  forced to 0 when the base is N.
\<close>

definition LayoutPos_init ::
  "int \<Rightarrow> int \<Rightarrow> int \<Rightarrow> int \<Rightarrow> int \<Rightarrow> int \<Rightarrow> bool \<Rightarrow> int \<Rightarrow> LayoutPos" where
  "LayoutPos_init p rp b opn q a m ma =
     \<lparr>pos = p, readPos = rp, base = b, operation = opn,
      quality = (if b \<noteq> 78 then q else 0),
      agreement = a, merged = m, mergeAgreed = ma\<rparr>"

text \<open>
  The only assignment to \<open>quality\<close> in the sources is the one of \<open>__init__\<close>, so every
  position satisfies: an N base carries quality 0.
\<close>

definition LayoutPos_wf :: "LayoutPos \<Rightarrow> bool" where
  "LayoutPos_wf p = (if base p = 78 then quality p = 0 else True)"

text \<open>
  The sum of two C \<open>int\<close>s as \<open>pos1.agreement + pos2.agreement\<close> computes it: the
  mathematical sum reduced modulo \<open>2 ^ 32\<close> into the range from \<open>- 2 ^ 31\<close> up to
  \<open>2 ^ 31 - 1\<close>.
\<close>

definition c_int_add :: "int \<Rightarrow> int \<Rightarrow> int" where
  "c_int_add a b = (a + b + 2147483648) mod 4294967296 - 2147483648"

text \<open>
  \<open>cMergePositions\<close>. The two quality combinators \<open>MergeAgreedQualities\<close> and
  \<open>MergeDiscQualities\<close> are cimported from a module that is not among the sources; they
  are the parameters \<open>MAQ\<close> and \<open>MDQ\<close>. Both arms of the conditional expression of the
  source's fourth case build the same position.
\<close>

definition cMergePositions ::
  "(int \<Rightarrow> int \<Rightarrow> int) \<Rightarrow> (int \<Rightarrow> int \<Rightarrow> int) \<Rightarrow> LayoutPos \<Rightarrow> LayoutPos \<Rightarrow> LayoutPos" where
  "cMergePositions MAQ MDQ pos1 pos2 =
     (if base pos1 = base pos2 then
        (if operation pos2 = operation pos1 then
           LayoutPos_init (pos pos1) (readPos pos1) (base pos1) (operation pos1)
             (MAQ (quality pos1) (quality pos2))
             (c_int_add (agreement pos1) (agreement pos2)) True 2
         else if operation pos2 = 83 then
           LayoutPos_init (pos pos1) (readPos pos1) (base pos1) (operation pos1)
             (MAQ (quality pos1) (quality pos2))
             (c_int_add (agreement pos1) (agreement pos2)) True 2
         else if operation pos1 = 83 then
           LayoutPos_init (pos pos2) (readPos pos1) (base pos1) (operation pos2)
             (MAQ (quality pos1) (quality pos2))
             (c_int_add (agreement pos1) (agreement pos2)) True 2
         else
           (if operation pos1 \<noteq> 68 \<and> operation pos1 \<noteq> 73
            then LayoutPos_init (pos pos1) (readPos pos1) 78 78 (- 137) (- 137) True 0
            else LayoutPos_init (pos pos1) (readPos pos1) 78 78 (- 137) (- 137) True 0))
      else if operation pos1 = operation pos2 then
        (if quality pos1 > quality pos2 then
           LayoutPos_init (pos pos1) (readPos pos1) (base pos1) (operation pos1)
             (MDQ (quality pos1) (quality pos2)) (agreement pos1) True 0
         else
           LayoutPos_init (pos pos1) (readPos pos1) (base pos2) (operation pos1)
             (MDQ (quality pos2) (quality pos1)) (agreement pos2) True 0)
      else
        (if base pos2 = 78 \<or> operation pos2 = 83 then
           LayoutPos_init (pos pos1) (readPos pos1) (base pos1) (operation pos1)
             (quality pos1) (agreement pos1) True 0
         else
           LayoutPos_init (pos pos1) (readPos pos1) (base pos1) 78 (- 137) (- 137) True 0))"

text \<open>
  Modelled from the spec: \<open>MergeAgreedQualities\<close> is not among the sources. The spec
  says of it that it is a quality-boosting function that increases confidence when two
  independent observations agree, the merged quality being at least the maximum of the two
  qualities. The contract is stated at the two qualities it is applied to.
\<close>

definition agreed_boosts :: "(int \<Rightarrow> int \<Rightarrow> int) \<Rightarrow> int \<Rightarrow> int \<Rightarrow> bool" where
  "agreed_boosts MAQ q1 q2 = (max q1 q2 \<le> MAQ q1 q2)"

text \<open>
  Modelled from the spec: \<open>MergeDiscQualities\<close> is not among the sources. The spec says
  of it that it is a quality-penalizing function reflecting two disagreeing observations,
  the merged quality being at most the maximum of the two qualities. \<open>cMergePositions\<close>
  calls it with the higher quality first.
\<close>

definition disc_penalizes :: "(int \<Rightarrow> int \<Rightarrow> int) \<Rightarrow> int \<Rightarrow> int \<Rightarrow> bool" where
  "disc_penalizes MDQ q1 q2 = (MDQ (max q1 q2) (min q1 q2) \<le> max q1 q2)"

section \<open>Layouts and the quality codec\<close>

text \<open>
  The ways the modelled code fails: the exceptions of the Python runtime that it can
  raise, and \<open>OutOfBounds\<close> for C code that reads an array outside its declared shape,
  where the behaviour is undefined.
\<close>

datatype py_error =
  IndexError | OverflowError | ValueError | TypeError | AttributeError | OutOfBounds

text \<open>
  The class \<open>PyLayout\<close>: the ordered positions of one read. Of the read-level metadata
  only the fields that the modelled functions read are kept.
\<close>

record PyLayout =
  positions :: "LayoutPos list"
  firstMapped :: int
  isMerged :: bool

text \<open>
  \<open>PyLayout.cGetQual\<close>: the qualities of the positions whose quality is above \<open>-1\<close>
  and whose operation is not 66.
\<close>

definition cGetQual :: "PyLayout \<Rightarrow> int list" where
  "cGetQual L =
     map quality (filter (\<lambda>p. quality p > - 1 \<and> operation p \<noteq> 66) (positions L))"

text \<open>
  \<open>PyLayout.cGetQualString\<close>: each quality \<open>i\<close> becomes the byte \<open>i + 33\<close> when
  \<open>i < 94\<close> and the byte 126 otherwise.
\<close>

definition cGetQualString :: "PyLayout \<Rightarrow> string" where
  "cGetQualString L = map (\<lambda>i. char_of (if i < 94 then i + 33 else 126)) (cGetQual L)"

text \<open>
  \<open>PyArr2QualStr\<close> of the FASTQ consolidation: the same expression over an array of
  32-bit integers. Its loop variable is declared \<open>size_t\<close>, so an element below 0 raises
  \<open>OverflowError\<close> when it is converted.
\<close>

definition PyArr2QualStr :: "int list \<Rightarrow> py_error + string" where
  "PyArr2QualStr qualArr =
     (if list_ex (\<lambda>i. i < 0) qualArr then Inl OverflowError
      else Inr (map (\<lambda>i. char_of (if i < 94 then i + 33 else 126)) qualArr))"

text \<open>
  Decoding one quality character under Phred+33: its code minus 33. The round trip of
  the codec is stated against this inverse.
\<close>

definition phred_of_char :: "char \<Rightarrow> int" where
  "phred_of_char c = of_char c - 33"

text \<open>
  Modelled from the spec: \<open>cs_to_ph\<close>, the decoder of a whole quality string, is
  cimported from a module that is not among the sources. By the spec's codec it decodes
  every character as above.
\<close>

definition cs_to_ph :: "string \<Rightarrow> int list" where
  "cs_to_ph s = map phred_of_char s"

section \<open>Statistical base caller: Fisher flattening\<close>

text \<open>
  The numeric helpers of \<open>cFisherFlatten\<close> are C macros and functions that are not among
  the sources; they are gathered as parameters. \<open>'d\<close> stands for the C \<open>double\<close>:
  \<open>dadd\<close> is its addition and \<open>dzero\<close> the 0.0 that \<open>calloc\<close> leaves, and nothing is
  assumed of them. \<open>igamc_phred n x\<close> is the 32-bit integer
  \<open><int32_t>(- 10 * c_log10(igamc_pvalues(n, x)) + 0.5)\<close> that the cast yields.
\<close>

record 'd numerics =
  dadd :: "'d \<Rightarrow> 'd \<Rightarrow> 'd"
  dzero :: "'d"
  CHI2_FROM_PHRED :: "int \<Rightarrow> 'd"
  INV_CHI2_FROM_PHRED :: "int \<Rightarrow> 'd"
  argmax4 :: "'d \<Rightarrow> 'd \<Rightarrow> 'd \<Rightarrow> 'd \<Rightarrow> nat"
  ARGMAX_CONV :: "nat \<Rightarrow> int"
  igamc_phred :: "int \<Rightarrow> 'd \<Rightarrow> int"

text \<open>
  The class \<open>SumArraySet\<close>: per candidate base and position, the observation count and
  the chi-square sum. Both arrays have \<open>4 * rLen\<close> cells; the cell of candidate \<open>k\<close>
  (0 for A, 1 for C, 2 for G, 3 for T) at position \<open>i\<close> is cell \<open>i + k * rLen\<close>.
\<close>

record 'd SumArraySet =
  counts :: "int list"
  chiSums :: "'d list"

text \<open>The class \<open>SeqQual\<close>: the consensus bases, qualities and agreement counts.\<close>

record SeqQual =
  Seq :: "int list"
  Qual :: "int list"
  Agree :: "int list"

text \<open>\<open>arr[i] += v\<close> on an array of doubles.\<close>

definition add_at :: "'d numerics \<Rightarrow> 'd list \<Rightarrow> nat \<Rightarrow> 'd \<Rightarrow> 'd list" where
  "add_at E xs i v = xs[i := dadd E (xs ! i) v]"

text \<open>
  One turn of the first \<open>while\<close> loop of \<open>cFisherFlatten\<close>, for the observation at
  \<open>query_index\<close>: \<open>offset\<close> is \<open>query_index % rLen\<close>, \<open>b\<close> is
  \<open>Seqs[query_index]\<close> and \<open>q\<close> is \<open>Quals[query_index]\<close>. The state is the sums and
  the local variable \<open>ndIndex\<close>, which only the four base cases assign; the count is
  incremented after the case distinction, at \<open>ndIndex\<close>, in every turn.
\<close>

definition flatten_step ::
  "'d numerics \<Rightarrow> nat \<Rightarrow> nat \<times> int \<times> int \<Rightarrow> 'd SumArraySet \<times> nat \<Rightarrow> 'd SumArraySet \<times> nat" where
  "flatten_step E rLen ob st =
     (case ob of (offset, b, q) \<Rightarrow>
      case st of (Sums, ndIndex0) \<Rightarrow>
        let invchi = INV_CHI2_FROM_PHRED E q;
            upd =
              (if b = 67 then
                 (add_at E (add_at E (add_at E
                    (add_at E (chiSums Sums) (offset + rLen) (CHI2_FROM_PHRED E q))
                    offset invchi) (offset + 2 * rLen) invchi) (offset + 3 * rLen) invchi,
                  offset + rLen)
               else if b = 71 then
                 (add_at E (add_at E (add_at E
                    (add_at E (chiSums Sums) (offset + 2 * rLen) (CHI2_FROM_PHRED E q))
                    offset invchi) (offset + rLen) invchi) (offset + 3 * rLen) invchi,
                  offset + 2 * rLen)
               else if b = 84 then
                 (add_at E (add_at E (add_at E
                    (add_at E (chiSums Sums) (offset + 3 * rLen) (CHI2_FROM_PHRED E q))
                    offset invchi) (offset + rLen) invchi) (offset + 2 * rLen) invchi,
                  offset + 3 * rLen)
               else if b = 65 then
                 (add_at E (add_at E (add_at E
                    (add_at E (chiSums Sums) offset (CHI2_FROM_PHRED E q))
                    (offset + rLen) invchi) (offset + 2 * rLen) invchi) (offset + 3 * rLen) invchi,
                  offset)
               else (chiSums Sums, ndIndex0))
        in (\<lparr>counts = (counts Sums)[snd upd := counts Sums ! snd upd + 1],
             chiSums = fst upd\<rparr>, snd upd))"

text \<open>
  The observations in the order the loop visits them, and the loop itself, started from
  the zeroed arrays and \<open>ndIndex = 0\<close>.
\<close>

definition observations :: "nat \<Rightarrow> nat \<Rightarrow> int list \<Rightarrow> int list \<Rightarrow> (nat \<times> int \<times> int) list" where
  "observations rLen nRecs Seqs Quals =
     map (\<lambda>query_index. (query_index mod rLen, Seqs ! query_index, Quals ! query_index))
       [0 ..< rLen * nRecs]"

definition accumulate :: "'d numerics \<Rightarrow> nat \<Rightarrow> (nat \<times> int \<times> int) list \<Rightarrow> 'd SumArraySet \<times> nat" where
  "accumulate E rLen obs =
     fold (flatten_step E rLen) obs
       (\<lparr>counts = replicate (4 * rLen) 0, chiSums = replicate (4 * rLen) (dzero E)\<rparr>, 0)"

text \<open>
  The second \<open>while\<close> loop, at position \<open>query_index\<close>: the winning candidate, the local
  variable \<open>tmpQual\<close>, and the triple of base, quality and agreement written to the result.
  A candidate index outside 0..3 would index outside the arrays; the model has no result
  there.
\<close>

definition winner :: "'d numerics \<Rightarrow> nat \<Rightarrow> 'd SumArraySet \<Rightarrow> nat \<Rightarrow> nat" where
  "winner E rLen Sums query_index =
     argmax4 E (chiSums Sums ! query_index) (chiSums Sums ! (query_index + rLen))
       (chiSums Sums ! (query_index + 2 * rLen)) (chiSums Sums ! (query_index + 3 * rLen))"

definition tmpQual :: "'d numerics \<Rightarrow> nat \<Rightarrow> 'd SumArraySet \<Rightarrow> nat \<Rightarrow> int" where
  "tmpQual E rLen Sums query_index =
     (let ndIndex = query_index + winner E rLen Sums query_index * rLen
      in igamc_phred E (counts Sums ! ndIndex) (chiSums Sums ! ndIndex))"

definition call_position ::
  "'d numerics \<Rightarrow> nat \<Rightarrow> 'd SumArraySet \<Rightarrow> nat \<Rightarrow> (int \<times> int \<times> int) option" where
  "call_position E rLen Sums query_index =
     (if winner E rLen Sums query_index \<ge> 4 then None
      else
        let ndIndex = query_index + winner E rLen Sums query_index * rLen
        in Some (ARGMAX_CONV E (winner E rLen Sums query_index),
                 (if tmpQual E rLen Sums query_index > 0
                  then tmpQual E rLen Sums query_index else 3114),
                 counts Sums ! ndIndex))"

text \<open>
  \<open>cFisherFlatten\<close>. \<open>Seqs\<close> and \<open>Quals\<close> are the flattened \<open>nRecs \<times> rLen\<close> arrays;
  arrays of another size would be read outside their bounds, and the model has no result
  there.
\<close>

definition cFisherFlatten ::
  "'d numerics \<Rightarrow> int list \<Rightarrow> int list \<Rightarrow> nat \<Rightarrow> nat \<Rightarrow> SeqQual option" where
  "cFisherFlatten E Seqs Quals rLen nRecs =
     (if length Seqs \<noteq> rLen * nRecs \<or> length Quals \<noteq> rLen * nRecs then None
      else
        let Sums = fst (accumulate E rLen (observations rLen nRecs Seqs Quals))
        in case those (map (call_position E rLen Sums) [0 ..< rLen]) of
             None \<Rightarrow> None
           | Some ts \<Rightarrow>
               Some \<lparr>Seq = map fst ts, Qual = map (\<lambda>t. fst (snd t)) ts,
                     Agree = map (\<lambda>t. snd (snd t)) ts\<rparr>)"

text \<open>
  An instance of the numeric parameters over the integers, for running the model on
  concrete families: addition of integers, the Phred value itself as evidence for a base
  and 0 as evidence against the others, the first candidate of maximal sum, the letters
  A, C, G, T, and a given rounding function \<open>f\<close>.
\<close>

definition int_numerics :: "(int \<Rightarrow> int \<Rightarrow> int) \<Rightarrow> int numerics" where
  "int_numerics f =
     \<lparr>dadd = (\<lambda>x y. x + y), dzero = 0,
      CHI2_FROM_PHRED = (\<lambda>q. q), INV_CHI2_FROM_PHRED = (\<lambda>q. 0),
      argmax4 = (\<lambda>a c g t. if c \<le> a \<and> g \<le> a \<and> t \<le> a then 0
                            else if g \<le> c \<and> t \<le> c then 1
                            else if t \<le> g then 2 else 3),
      ARGMAX_CONV = (\<lambda>k. [65, 67, 71, 84] ! k),
      igamc_phred = f\<rparr>"

section \<open>Statistical base caller: consolidating a family of FASTQ records\<close>

text \<open>
  A record of a barcode family (\<open>pFastqProxy\<close>): name, comment, sequence and quality
  string. The quality string is the field \<open>quality\<close> of the source.
\<close>

record pFastqProxy =
  name :: string
  comment :: string
  sequence :: string
  quality_fq :: string

text \<open>Python's \<open>str\<close> of an integer, and \<open>sep.join\<close> of a list of strings.\<close>

fun str_nat :: "nat \<Rightarrow> string" where
  "str_nat n =
     (if n < 10 then [char_of (48 + n)]
      else str_nat (n div 10) @ [char_of (48 + n mod 10)])"

declare str_nat.simps [simp del]

definition str_int :: "int \<Rightarrow> string" where
  "str_int i = (if i < 0 then CHR ''-'' # str_nat (nat (- i)) else str_nat (nat i))"

fun join :: "string \<Rightarrow> string list \<Rightarrow> string" where
  "join sep [] = []"
| "join sep [x] = x"
| "join sep (x # y # ys) = x @ sep @ join sep (y # ys)"

text \<open>The tag encoders: \<open>|PV=\<close> and \<open>|FA=\<close> followed by the comma-separated integers.\<close>

definition PyArr2FAString :: "int list \<Rightarrow> string" where
  "PyArr2FAString agreeArr = ''|FA='' @ join '','' (map str_int agreeArr)"

definition PyArr2PVString :: "int list \<Rightarrow> string" where
  "PyArr2PVString qualArr = ''|PV='' @ join '','' (map str_int qualArr)"

definition cQualArr2PVString :: "int list \<Rightarrow> string" where
  "cQualArr2PVString qualArr = ''|PV='' @ join '','' (map str_int qualArr)"

definition cQualArr2FAString :: "int list \<Rightarrow> string" where
  "cQualArr2FAString qualArr = ''|FA='' @ join '','' (map str_int qualArr)"

text \<open>
  Modelled from the spec: the translation table \<open>PH2CHR_TRANS\<close> is not among the sources.
  By the spec's codec a Phred value \<open>q\<close> is written as the character of code
  \<open>q + 33\<close>.
\<close>

definition PH2CHR_TRANS :: "int \<Rightarrow> char" where
  "PH2CHR_TRANS b = char_of (b + 33)"

text \<open>
  \<open>cQualArr2QualStr\<close>: values from 94 on become 93, the values are stored as unsigned
  bytes (a negative one raises \<open>OverflowError\<close>) and translated by the table.
\<close>

definition cQualArr2QualStr :: "int list \<Rightarrow> py_error + string" where
  "cQualArr2QualStr qualArr =
     (if list_ex (\<lambda>tmpInt. tmpInt < 0) qualArr then Inl OverflowError
      else Inr (map (\<lambda>tmpInt. PH2CHR_TRANS (if tmpInt < 94 then tmpInt else 93)) qualArr))"

text \<open>
  Modelled from the spec: \<open>pFastqProxy.getQualArray\<close> and \<open>cs_to_ia\<close> are not among the
  sources. The first decodes the record's quality string, the second gives the character
  codes of a sequence.
\<close>

definition getQualArray :: "pFastqProxy \<Rightarrow> int list" where
  "getQualArray r = cs_to_ph (quality_fq r)"

definition cs_to_ia :: "string \<Rightarrow> int list" where
  "cs_to_ia s = map of_char s"

text \<open>
  The line feed, and the record text
  \<open>"@" + name + " " + comment + TagString + "\n" + seq + "\n+\n" + qual + "\n"\<close> that
  every branch of the consolidation functions returns.
\<close>

definition LF :: char where
  "LF = CHR 0x0A"

definition fq_text :: "string \<Rightarrow> string \<Rightarrow> string \<Rightarrow> string \<Rightarrow> string \<Rightarrow> string" where
  "fq_text nm cmt TagString sq ql =
     ''@'' @ nm @ '' '' @ cmt @ TagString @ [LF] @ sq @ [LF] @ ''+'' @ [LF] @ ql @ [LF]"

text \<open>
  The tag string of a family of one record:
  \<open>"|FM=1|ND=0|FA=" + "1" + "".join([",1"] * (rLen - 1))\<close>, followed by the PV tag.
  A list times a number below 1 is the empty list.
\<close>

definition singleton_tags :: "nat \<Rightarrow> string \<Rightarrow> string" where
  "singleton_tags rLen PVString =
     ''|FM=1|ND=0|FA='' @ ''1'' @ concat (replicate (rLen - 1) '',1'') @ PVString"

text \<open>
  \<open>np.array\<close> of the rows of a family with a fixed element type raises \<open>ValueError\<close>
  when the rows differ in length.
\<close>

definition np_array2D :: "int list list \<Rightarrow> py_error + int list list" where
  "np_array2D rows =
     (if list_all (\<lambda>r. length r = length (hd rows)) rows then Inr rows else Inl ValueError)"

text \<open>
  \<open>cFastFisherFlattening\<close>. \<open>name\<close> is the optional argument (\<open>None\<close> takes the name of
  the first record). \<open>arrmax\<close>, which fills the quality line of a family of two or more
  from the original qualities, is a C function that is not among the sources and is a
  parameter. The function is compiled without bounds checks, so \<open>R[0]\<close> of an empty
  family reads past the end of the list, which is undefined. For two or more records,
  \<open>FisherFlatten\<close> (compiled with bounds checks) raises \<open>IndexError\<close> at \<open>Seqs[0,0]\<close>
  when the reads are empty and at \<open>Quals[0,0]\<close> when the quality rows are empty, and
  passes the two buffers on as pointers: \<open>cFisherFlatten\<close> reads the first
  \<open>rLen * nRecs\<close> cells of the flattened quality array whatever the length of its rows,
  and reads past its end when the rows are shorter than the reads.
\<close>

definition cFastFisherFlattening ::
  "'d numerics \<Rightarrow> (int list \<Rightarrow> nat \<Rightarrow> nat \<Rightarrow> int list) \<Rightarrow> pFastqProxy list \<Rightarrow> string option
     \<Rightarrow> py_error + string" where
  "cFastFisherFlattening E arrmax R nm =
     (case R of [] \<Rightarrow> Inl OutOfBounds
      | rec # _ \<Rightarrow>
        let nm' = (case nm of None \<Rightarrow> name rec | Some n \<Rightarrow> n);
            nRecs = length R;
            rLen = length (sequence rec)
        in if nRecs = 1 then
             Inr (fq_text nm' (comment rec)
                    (singleton_tags rLen (PyArr2PVString (getQualArray rec)))
                    (sequence rec) (quality_fq rec))
           else
             case np_array2D (map (\<lambda>r. cs_to_ia (sequence r)) R) of
               Inl e \<Rightarrow> Inl e
             | Inr seqArray \<Rightarrow>
             case np_array2D (map (\<lambda>r. cs_to_ph (quality_fq r)) R) of
               Inl e \<Rightarrow> Inl e
             | Inr quals \<Rightarrow>
             if rLen = 0 \<or> length (hd quals) = 0 then Inl IndexError
             else if length (hd quals) < rLen then Inl OutOfBounds
             else
             case cFisherFlatten E (concat seqArray)
                    (take (rLen * nRecs) (concat quals)) rLen nRecs of
               None \<Rightarrow> Inl OutOfBounds
             | Some ret \<Rightarrow>
                   let newSeq = map char_of (Seq ret);
                       phredQualsStr = map char_of (arrmax (concat quals) nRecs rLen);
                       PVString = PyArr2PVString (Qual ret);
                       FAString = PyArr2FAString (Agree ret);
                       ND = int nRecs * int rLen - sum_list (Agree ret);
                       TagString = ''|FM='' @ str_int (int nRecs) @ ''|ND='' @ str_int ND
                                     @ PVString @ FAString
                   in Inr (fq_text nm' (comment rec) TagString newSeq phredQualsStr))"

text \<open>
  The fast comparison \<open>cCompareFqRecsFast\<close>, for a family of two or more records. Per
  position: the summed qualities of the reads showing each of A, C, G, T; the first
  candidate of maximal sum (\<open>np.argmax\<close>), translated to its letter by
  \<open>ARGMAX_TRANSLATE_STRING\<close>; and that maximal sum (\<open>np.amax\<close>).
\<close>

definition qualFlat :: "int \<Rightarrow> int list list \<Rightarrow> int list list \<Rightarrow> nat \<Rightarrow> int list" where
  "qualFlat b seqArray quals rLen =
     map (\<lambda>i. sum_list (map (\<lambda>(s, q). if s ! i \<noteq> b then 0 else q ! i) (zip seqArray quals)))
       [0 ..< rLen]"

definition np_argmax4 :: "int \<Rightarrow> int \<Rightarrow> int \<Rightarrow> int \<Rightarrow> nat" where
  "np_argmax4 a c g t =
     (if c \<le> a \<and> g \<le> a \<and> t \<le> a then 0
      else if g \<le> c \<and> t \<le> c then 1
      else if t \<le> g then 2 else 3)"

definition ARGMAX_TRANSLATE_STRING :: "nat \<Rightarrow> char" where
  "ARGMAX_TRANSLATE_STRING k =
     (if k = 0 then CHR ''A'' else if k = 1 then CHR ''C''
      else if k = 2 then CHR ''G'' else if k = 3 then CHR ''T'' else char_of k)"

definition fast_newSeq :: "int list list \<Rightarrow> int list list \<Rightarrow> nat \<Rightarrow> string" where
  "fast_newSeq seqArray quals rLen =
     map (\<lambda>i. ARGMAX_TRANSLATE_STRING
                 (np_argmax4 (qualFlat 65 seqArray quals rLen ! i)
                    (qualFlat 67 seqArray quals rLen ! i)
                    (qualFlat 71 seqArray quals rLen ! i)
                    (qualFlat 84 seqArray quals rLen ! i)))
       [0 ..< rLen]"

definition fast_amax :: "int list list \<Rightarrow> int list list \<Rightarrow> nat \<Rightarrow> int list" where
  "fast_amax seqArray quals rLen =
     map (\<lambda>i. max (max (qualFlat 65 seqArray quals rLen ! i)
                       (qualFlat 67 seqArray quals rLen ! i))
                  (max (qualFlat 71 seqArray quals rLen ! i)
                       (qualFlat 84 seqArray quals rLen ! i)))
       [0 ..< rLen]"

text \<open>
  The agreement array \<open>FA\<close>: per position, the number of records whose base is the
  consensus base.
\<close>

definition fast_FA :: "pFastqProxy list \<Rightarrow> string \<Rightarrow> nat \<Rightarrow> int list" where
  "fast_FA R newSeq rLen =
     map (\<lambda>i. int (length (filter (\<lambda>rec. sequence rec ! i = newSeq ! i) R))) [0 ..< rLen]"

text \<open>
  The filtering of the qualities. The C \<open>double\<close>s \<open>minPVFrac\<close>, \<open>minFAFrac\<close> and
  \<open>minMaxFA\<close> (defaults 0.1, 0.2 and 0.9) and the products compared against are modelled
  as real numbers. First the positions below \<open>minPVFrac\<close> times the best quality are set
  to 0; then the whole array is set to 0 when the least agreement is below
  \<open>minFAFrac * nRecs\<close> or the greatest agreement is below \<open>minMaxFA * nRecs\<close>; last,
  negative entries are set to 0.
\<close>

definition family_discordant :: "int list \<Rightarrow> nat \<Rightarrow> real \<Rightarrow> real \<Rightarrow> bool" where
  "family_discordant FA nRecs minFAFrac minMaxFA =
     (real_of_int (Min (set FA)) < minFAFrac * real nRecs
      \<or> real_of_int (Max (set FA)) < minMaxFA * real nRecs)"

definition fast_phredQuals ::
  "int list \<Rightarrow> int list \<Rightarrow> nat \<Rightarrow> real \<Rightarrow> real \<Rightarrow> real \<Rightarrow> int list" where
  "fast_phredQuals amax FA nRecs minPVFrac minFAFrac minMaxFA =
     (let tmpFlt = real_of_int (Max (set amax));
          PVFracDivisor = minPVFrac * tmpFlt;
          kicked = map (\<lambda>q. if real_of_int q < PVFracDivisor then 0 else q) amax;
          flagged = (if family_discordant FA nRecs minFAFrac minMaxFA
                     then map (\<lambda>q. 0) kicked else kicked)
      in map (\<lambda>q. if q < 0 then 0 else q) flagged)"

text \<open>
  \<open>cCompareFqRecsFast\<close>. The function is compiled without bounds checks, so \<open>R[0]\<close>
  of an empty family reads past the end of the list, which is undefined. A family of one
  record is returned as it is, with the tags of a singleton. For two or more records of
  length 0 the reductions \<open>np.max\<close> and \<open>np.min\<close> of an empty array raise
  \<open>ValueError\<close>, and quality rows whose length is not the read length make the boolean
  mask fail with \<open>IndexError\<close>.
\<close>

definition cCompareFqRecsFast ::
  "pFastqProxy list \<Rightarrow> string option \<Rightarrow> real \<Rightarrow> real \<Rightarrow> real \<Rightarrow> py_error + string" where
  "cCompareFqRecsFast R nm minPVFrac minFAFrac minMaxFA =
     (case R of [] \<Rightarrow> Inl OutOfBounds
      | rec # _ \<Rightarrow>
        let nm' = (case nm of None \<Rightarrow> name rec | Some n \<Rightarrow> n);
            nRecs = length R;
            rLen = length (sequence rec)
        in if nRecs = 1 then
             Inr (fq_text nm' (comment rec)
                    (singleton_tags rLen (cQualArr2PVString (getQualArray rec)))
                    (sequence rec) (quality_fq rec))
           else
             case np_array2D (map (\<lambda>r. cs_to_ia (sequence r)) R) of
               Inl e \<Rightarrow> Inl e
             | Inr seqArray \<Rightarrow>
             case np_array2D (map (\<lambda>r. cs_to_ph (quality_fq r)) R) of
               Inl e \<Rightarrow> Inl e
             | Inr quals \<Rightarrow>
                 if length (hd quals) \<noteq> rLen then Inl IndexError
                 else if rLen = 0 then Inl ValueError
                 else
                   let newSeq = fast_newSeq seqArray quals rLen;
                       FA = fast_FA R newSeq rLen;
                       phredQuals = fast_phredQuals (fast_amax seqArray quals rLen) FA nRecs
                                      minPVFrac minFAFrac minMaxFA;
                       ND = int nRecs * int rLen - sum_list FA;
                       PVString = cQualArr2PVString phredQuals;
                       FAString = cQualArr2FAString FA;
                       TagString = ''|FM='' @ str_int (int nRecs) @ ''|ND='' @ str_int ND
                                     @ FAString @ PVString
                   in case cQualArr2QualStr phredQuals of
                        Inl e \<Rightarrow> Inl e
                      | Inr phredQualsStr \<Rightarrow>
                          Inr (fq_text nm' (comment rec) TagString newSeq phredQualsStr))"

text \<open>\<open>pCompareFqRecsFast\<close>: the fast comparison with its default thresholds.\<close>

definition pCompareFqRecsFast :: "pFastqProxy list \<Rightarrow> string option \<Rightarrow> py_error + string" where
  "pCompareFqRecsFast R nm = cCompareFqRecsFast R nm (1 / 10) (2 / 10) (9 / 10)"

text \<open>
  Python's \<open>str.split\<close> with a separator of one character, as the pipeline's readers use
  it to take a record text apart.
\<close>

fun split_on :: "char \<Rightarrow> string \<Rightarrow> string list" where
  "split_on c [] = [[]]"
| "split_on c (x # xs) =
     (if x = c then [] # split_on c xs
      else (case split_on c xs of [] \<Rightarrow> [[x]] | w # ws \<Rightarrow> (x # w) # ws))"

text \<open>Records for running the model: a read of four bases, and two reads of one base.\<close>

definition read_ACGN :: pFastqProxy where
  "read_ACGN = \<lparr>name = ''r1'', comment = ''|BS=ACGT'', sequence = ''ACGN'', quality_fq = ''IIII''\<rparr>"

definition read_A :: pFastqProxy where
  "read_A = \<lparr>name = ''r1'', comment = ''|BS=ACGT'', sequence = ''A'', quality_fq = ''I''\<rparr>"

definition read_C :: pFastqProxy where
  "read_C = \<lparr>name = ''r2'', comment = ''|BS=ACGT'', sequence = ''C'', quality_fq = ''5''\<rparr>"

section \<open>Mate-pair layout merger\<close>

text \<open>
  \<open>PyLayout.cGetRefPosForFirstPos\<close>: the reference position of the first M position
  minus its index. The function is declared \<open>cdef int\<close> and has no \<open>return\<close> after the
  loop, so a layout without an M position gives 0.
\<close>

fun first_mapped_ref :: "LayoutPos list \<Rightarrow> int \<Rightarrow> int" where
  "first_mapped_ref [] count = 0"
| "first_mapped_ref (i # rest) count =
     (if operation i = 77 then pos i - count else first_mapped_ref rest (count + 1))"

definition cGetRefPosForFirstPos :: "PyLayout \<Rightarrow> int" where
  "cGetRefPosForFirstPos L = first_mapped_ref (positions L) 0"

text \<open>Python's slices \<open>xs[:k]\<close> and \<open>xs[k:]\<close>; a negative \<open>k\<close> counts from the end.\<close>

definition py_slice_to :: "'a list \<Rightarrow> int \<Rightarrow> 'a list" where
  "py_slice_to xs k = take (nat (if k < 0 then int (length xs) + k else k)) xs"

definition py_slice_from :: "'a list \<Rightarrow> int \<Rightarrow> 'a list" where
  "py_slice_from xs k = drop (nat (if k < 0 then int (length xs) + k else k)) xs"

text \<open>
  The \<open>for\<close> loop of \<open>cMergeLayoutsToList\<close> over the positions of \<open>L1\<close> from the
  overlap on. \<open>count\<close> is the cursor into \<open>L2\<close> and \<open>lst\<close> the list built so far;
  \<open>L2[count]\<close> raises \<open>IndexError\<close> past the end of \<open>L2\<close>. The loop returns the list
  and the final cursor.
\<close>

fun overlap_walk ::
  "(int \<Rightarrow> int \<Rightarrow> int) \<Rightarrow> (int \<Rightarrow> int \<Rightarrow> int) \<Rightarrow> LayoutPos list \<Rightarrow> LayoutPos list \<Rightarrow> nat
     \<Rightarrow> LayoutPos list \<Rightarrow> py_error + (LayoutPos list \<times> nat)" where
  "overlap_walk MAQ MDQ [] L2 count lst = Inr (lst, count)"
| "overlap_walk MAQ MDQ (pos1 # rest) L2 count lst =
     (if count \<ge> length L2 then Inl IndexError
      else
        let pos2 = L2 ! count
        in if operation pos1 = operation pos2 then
             overlap_walk MAQ MDQ rest L2 (count + 1) (lst @ [cMergePositions MAQ MDQ pos1 pos2])
           else if operation pos1 = 68 then
             overlap_walk MAQ MDQ rest L2 count (lst @ [pos1])
           else if operation pos2 = 68 then
             overlap_walk MAQ MDQ rest L2 (count + 1) (lst @ [pos2])
           else
             overlap_walk MAQ MDQ rest L2 (count + 1) (lst @ [cMergePositions MAQ MDQ pos1 pos2]))"

text \<open>
  \<open>cMergeLayoutsToList\<close>. When \<open>L1\<close> starts after \<open>L2\<close> the source assigns \<open>L2\<close> to
  \<open>L1\<close> and deletes the temporary; \<open>L2\<close> itself is not reassigned. The result is the
  list of the returned \<open>ListBool\<close>, whose flag is always true.
\<close>

definition cMergeLayoutsToList ::
  "(int \<Rightarrow> int \<Rightarrow> int) \<Rightarrow> (int \<Rightarrow> int \<Rightarrow> int) \<Rightarrow> PyLayout \<Rightarrow> PyLayout
     \<Rightarrow> py_error + LayoutPos list" where
  "cMergeLayoutsToList MAQ MDQ L1 L2 =
     (let L1' = (if cGetRefPosForFirstPos L1 > cGetRefPosForFirstPos L2 then L2 else L1);
          offset = cGetRefPosForFirstPos L2 - cGetRefPosForFirstPos L1'
      in case overlap_walk MAQ MDQ (py_slice_from (positions L1') offset) (positions L2) 0
                (py_slice_to (positions L1') offset) of
           Inl e \<Rightarrow> Inl e
         | Inr (lst, count) \<Rightarrow> Inr (lst @ drop count (positions L2)))"

text \<open>
  Positions for running the merger: matches A, C and G at reference positions 100 to 102,
  and a deletion of position 101.
\<close>

definition M100A :: LayoutPos where
  "M100A = LayoutPos_init 100 0 65 77 30 1 False 1"

definition M101C :: LayoutPos where
  "M101C = LayoutPos_init 101 1 67 77 30 1 False 1"

definition M102G :: LayoutPos where
  "M102G = LayoutPos_init 102 2 71 77 30 1 False 1"

definition D101 :: LayoutPos where
  "D101 = LayoutPos_init 101 (- 1) 68 68 (- 1) (- 1) False 1"

definition layout_of :: "LayoutPos list \<Rightarrow> PyLayout" where
  "layout_of ps = \<lparr>positions = ps, firstMapped = 0, isMerged = False\<rparr>"

section \<open>Alignment layout model: expanding and collapsing a CIGAR\<close>

text \<open>
  The fields of a pysam \<open>AlignedSegment\<close> that the layout construction reads: the CIGAR
  as pairs of operation code and length, the aligned pairs (query position, reference
  position; either may be \<open>None\<close>), the bases \<open>seq\<close>, the qualities, and the optional
  PV, FA and MP tags (\<open>None\<close> when the tag is not set). The layout construction also
  reads an attribute \<open>sequence\<close> of the read; pysam documents the bases as \<open>seq\<close> and
  \<open>query_sequence\<close>, so the attribute is a field of its own, \<open>None\<close> for an object
  that has no such attribute. Lengths and offsets are never negative and are modelled as
  \<open>nat\<close>.
\<close>

record AlignedSegment =
  cigar :: "(int \<times> nat) list"
  aligned_pairs :: "(nat option \<times> int option) list"
  seq :: string
  sequence_attr :: "string option"
  query_qualities :: "int list"
  PV_tag :: "int list option"
  FA_tag :: "int list option"
  MP_tag :: "string option"

text \<open>
  Modelled from the spec: \<open>CigarOpToCigarChar\<close> is not among the sources. The codes and
  their characters are those listed in the documentation of \<open>LayoutPos\<close>, the string
  \<open>MIDNSHP=X\<close> indexed by the operation code; any other code gives \<open>-1\<close>.
\<close>

definition CigarOpToCigarChar :: "int \<Rightarrow> int" where
  "CigarOpToCigarChar cigarOp =
     (if 0 \<le> cigarOp \<and> cigarOp < 9
      then [77, 73, 68, 78, 83, 72, 80, 61, 88] ! nat cigarOp else - 1)"

text \<open>Indexing a Python sequence with a non-negative index.\<close>

definition py_index :: "'a list \<Rightarrow> nat \<Rightarrow> py_error + 'a" where
  "py_index xs i = (if i < length xs then Inr (xs ! i) else Inl IndexError)"

text \<open>The first error of a list of results, or all the values.\<close>

fun collect :: "('e + 'a) list \<Rightarrow> 'e + 'a list" where
  "collect [] = Inr []"
| "collect (x # xs) =
     (case x of Inl e \<Rightarrow> Inl e
      | Inr v \<Rightarrow> (case collect xs of Inl e \<Rightarrow> Inl e | Inr vs \<Rightarrow> Inr (v # vs)))"

text \<open>
  The position that \<open>CigarOpToLayoutPosList\<close> builds for one aligned pair \<open>(x0, x1)\<close>.
  The base, quality and agreement are read at \<open>x0\<close>; with \<open>x0\<close> absent under a soft
  clip the subscript \<open>rec.seq[None]\<close> raises \<open>TypeError\<close>, and so does an absent
  reference position passed for \<open>pos\<close>.
\<close>

definition read_pos ::
  "string \<Rightarrow> int list \<Rightarrow> int list \<Rightarrow> int \<Rightarrow> int \<Rightarrow> nat \<Rightarrow> py_error + LayoutPos" where
  "read_pos sq quals agrees p opn x0 =
     (case py_index sq x0 of Inl e \<Rightarrow> Inl e | Inr b \<Rightarrow>
      case py_index quals x0 of Inl e \<Rightarrow> Inl e | Inr q \<Rightarrow>
      case py_index agrees x0 of Inl e \<Rightarrow> Inl e | Inr a \<Rightarrow>
        Inr (LayoutPos_init p (int x0) (of_char b) opn q a False 1))"

definition layout_of_pair ::
  "int \<Rightarrow> string \<Rightarrow> int list \<Rightarrow> int list \<Rightarrow> nat option \<times> int option \<Rightarrow> py_error + LayoutPos" where
  "layout_of_pair CigarChar sq quals agrees pr =
     (case pr of
        (Some x0, Some x1) \<Rightarrow> read_pos sq quals agrees x1 77 x0
      | (Some x0, None) \<Rightarrow> read_pos sq quals agrees (- 1) CigarChar x0
      | (None, x1) \<Rightarrow>
          if CigarChar = 83 then Inl TypeError
          else (case x1 of None \<Rightarrow> Inl TypeError
                | Some p \<Rightarrow> Inr (LayoutPos_init p (- 1) 68 68 (- 1) (- 1) False 1)))"

text \<open>
  The local arrays \<open>quals\<close> and \<open>agrees\<close> of \<open>CigarOpToLayoutPosList\<close>. The
  qualities are the PV tag when present and the query qualities otherwise. The agreements
  are the FA tag when present and otherwise \<open>[1] * len(rec.sequence)\<close>, which raises
  \<open>AttributeError\<close> for a read without that attribute.
\<close>

definition quals_of :: "AlignedSegment \<Rightarrow> int list" where
  "quals_of rec = (case PV_tag rec of Some pv \<Rightarrow> pv | None \<Rightarrow> query_qualities rec)"

definition agrees_of :: "AlignedSegment \<Rightarrow> py_error + int list" where
  "agrees_of rec =
     (case FA_tag rec of
        Some fa \<Rightarrow> Inr fa
      | None \<Rightarrow> (case sequence_attr rec of
                   None \<Rightarrow> Inl AttributeError
                 | Some s \<Rightarrow> Inr (replicate (length s) 1)))"

text \<open>
  \<open>CigarOpToLayoutPosList\<close>: the positions of the aligned pairs
  \<open>rec.aligned_pairs[offset:offset + cigarLen]\<close>.
\<close>

definition CigarOpToLayoutPosList ::
  "nat \<Rightarrow> int \<Rightarrow> nat \<Rightarrow> AlignedSegment \<Rightarrow> py_error + LayoutPos list" where
  "CigarOpToLayoutPosList offset cigarOp cigarLen rec =
     (let CigarChar = CigarOpToCigarChar cigarOp;
          quals = quals_of rec
      in case agrees_of rec of
           Inl e \<Rightarrow> Inl e
         | Inr agrees \<Rightarrow>
             collect (map (layout_of_pair CigarChar (seq rec) quals agrees)
                        (take cigarLen (drop offset (aligned_pairs rec)))))"

text \<open>
  The loop of \<open>makeLayoutTuple\<close> over the CIGAR, and \<open>PyLayout.fromread\<close>, which
  builds the layout from its result.
\<close>

fun makeLayoutTuple_loop ::
  "AlignedSegment \<Rightarrow> (int \<times> nat) list \<Rightarrow> nat \<Rightarrow> int \<Rightarrow> LayoutPos list
     \<Rightarrow> py_error + (LayoutPos list \<times> int)" where
  "makeLayoutTuple_loop rec [] offset fm PosList = Inr (PosList, fm)"
| "makeLayoutTuple_loop rec (pair # rest) offset fm PosList =
     (case CigarOpToLayoutPosList offset (fst pair) (snd pair) rec of
        Inl e \<Rightarrow> Inl e
      | Inr ps \<Rightarrow>
          makeLayoutTuple_loop rec rest (offset + snd pair)
            (if fst pair = 0 \<and> fm < 0 then int offset else fm) (PosList @ ps))"

definition fromread :: "AlignedSegment \<Rightarrow> py_error + PyLayout" where
  "fromread rec =
     (case makeLayoutTuple_loop rec (cigar rec) 0 (- 1) [] of
        Inl e \<Rightarrow> Inl e
      | Inr (PosList, fm) \<Rightarrow>
          Inr \<lparr>positions = PosList, firstMapped = fm, isMerged = (MP_tag rec = Some ''T'')\<rparr>)"

text \<open>
  \<open>PyLayout.getOperations\<close>, \<open>itertools.groupby\<close> reduced to each run's key and
  length, and \<open>PyLayout.cGetCigarString\<close>. \<open>opLenToStr\<close>, which writes one run, is not
  among the sources and is a parameter.
\<close>

definition getOperations :: "PyLayout \<Rightarrow> int list" where
  "getOperations L = map operation (positions L)"

function groupby_len :: "'a list \<Rightarrow> ('a \<times> nat) list" where
  "groupby_len [] = []"
| "groupby_len (k # xs) =
     (k, Suc (length (takeWhile (\<lambda>y. y = k) xs))) # groupby_len (dropWhile (\<lambda>y. y = k) xs)"
  by pat_completeness auto
termination
  by (relation "measure length") (auto simp: length_dropWhile_le less_Suc_eq_le)

definition cGetCigarString :: "(int \<Rightarrow> nat \<Rightarrow> string) \<Rightarrow> PyLayout \<Rightarrow> string" where
  "cGetCigarString opLenToStr L =
     concat (map (\<lambda>(k, n). opLenToStr k n) (groupby_len (getOperations L)))"

text \<open>
  The aligned pairs that pysam reports for a CIGAR over the four operation kinds of the
  layout model, from query position \<open>q\<close> and reference position \<open>r\<close>: a match (0) pairs
  both positions and advances both, an insertion (1) and a soft clip (4) have a query
  position only, a deletion (2) has a reference position only.
\<close>

fun pysam_aligned_pairs :: "nat \<Rightarrow> int \<Rightarrow> (int \<times> nat) list \<Rightarrow> (nat option \<times> int option) list" where
  "pysam_aligned_pairs q r [] = []"
| "pysam_aligned_pairs q r (pair # rest) =
     (if fst pair = 0 then
        map (\<lambda>k. (Some (q + k), Some (r + int k))) [0 ..< snd pair]
          @ pysam_aligned_pairs (q + snd pair) (r + int (snd pair)) rest
      else if fst pair = 1 \<or> fst pair = 4 then
        map (\<lambda>k. (Some (q + k), None)) [0 ..< snd pair]
          @ pysam_aligned_pairs (q + snd pair) r rest
      else if fst pair = 2 then
        map (\<lambda>k. (None, Some (r + int k))) [0 ..< snd pair]
          @ pysam_aligned_pairs q (r + int (snd pair)) rest
      else pysam_aligned_pairs q r rest)"

text \<open>The number of read bases a CIGAR covers.\<close>

fun query_length :: "(int \<times> nat) list \<Rightarrow> nat" where
  "query_length [] = 0"
| "query_length (pair # rest) =
     (if fst pair = 0 \<or> fst pair = 1 \<or> fst pair = 4 then snd pair else 0) + query_length rest"

text \<open>
  A well-formed CIGAR: operations among M, I, D and S, every length positive, and no two
  neighbouring runs of the same operation (the run-length normal form that aligners
  write).
\<close>

fun cigar_wf :: "(int \<times> nat) list \<Rightarrow> bool" where
  "cigar_wf [] = True"
| "cigar_wf [pair] = ((fst pair = 0 \<or> fst pair = 1 \<or> fst pair = 2 \<or> fst pair = 4) \<and> 0 < snd pair)"
| "cigar_wf (pair # pair' # rest) =
     ((fst pair = 0 \<or> fst pair = 1 \<or> fst pair = 2 \<or> fst pair = 4) \<and> 0 < snd pair
      \<and> fst pair \<noteq> fst pair' \<and> cigar_wf (pair' # rest))"

text \<open>
  A well-formed aligned read: its CIGAR is well formed, its aligned pairs are those of
  the CIGAR from query position 0 and reference position \<open>start\<close>, it has a base and a
  quality for every read base the CIGAR covers, and its FA tag, when it is set, has an
  agreement for every read base. The FA tag is optional.
\<close>

definition read_wf :: "int \<Rightarrow> AlignedSegment \<Rightarrow> bool" where
  "read_wf start rec =
     (cigar_wf (cigar rec)
      \<and> aligned_pairs rec = pysam_aligned_pairs 0 start (cigar rec)
      \<and> length (seq rec) = query_length (cigar rec)
      \<and> length (quals_of rec) = query_length (cigar rec)
      \<and> (case FA_tag rec of
            None \<Rightarrow> True
          | Some fa \<Rightarrow> length fa = query_length (cigar rec)))"

text \<open>An operation code of the layout model: M (0), I (1), D (2) or S (4).\<close>

definition layout_op :: "int \<times> nat \<Rightarrow> bool" where
  "layout_op pair = (fst pair = 0 \<or> fst pair = 1 \<or> fst pair = 2 \<or> fst pair = 4)"

text \<open>
  A read for running the model: CIGAR 1S2M1I1D1M at reference position 100, with the
  aligned pairs pysam gives for it, an FA tag and no PV tag.
\<close>

definition read_1S2M1I1D1M :: AlignedSegment where
  "read_1S2M1I1D1M =
     \<lparr>cigar = [(4, 1), (0, 2), (1, 1), (2, 1), (0, 1)],
      aligned_pairs = [(Some 0, None), (Some 1, Some 100), (Some 2, Some 101),
                       (Some 3, None), (None, Some 102), (Some 4, Some 103)],
      seq = ''NACGT'', sequence_attr = None, query_qualities = [2, 30, 30, 30, 30],
      PV_tag = None, FA_tag = Some [1, 3, 3, 2, 3], MP_tag = None\<rparr>"

text \<open>
  The same read as an aligner writes it, before any tag of the pipeline is set: no FA
  tag. Like every pysam read it has no attribute \<open>sequence\<close>.
\<close>

definition read_1S2M1I1D1M_untagged :: AlignedSegment where
  "read_1S2M1I1D1M_untagged = read_1S2M1I1D1M\<lparr>FA_tag := None\<rparr>"

text \<open>
  A read of three bases that all match the reference, written with the sequence-match
  operation (code 7, the character \<open>=\<close>): CIGAR \<open>3=\<close> at reference position 100, with
  an FA tag.
\<close>

definition read_3EQ :: AlignedSegment where
  "read_3EQ =
     \<lparr>cigar = [(7, 3)],
      aligned_pairs = [(Some 0, Some 100), (Some 1, Some 101), (Some 2, Some 102)],
      seq = ''ACG'', sequence_attr = None, query_qualities = [30, 30, 30],
      PV_tag = None, FA_tag = Some [1, 1, 1], MP_tag = None\<rparr>"

section \<open>Properties of a layout position\<close>

lemma LayoutPos_init_wf: "LayoutPos_wf (LayoutPos_init p rp b opn q a m ma)"
  by (simp add: LayoutPos_wf_def LayoutPos_init_def)

lemma cMergePositions_wf: "LayoutPos_wf (cMergePositions MAQ MDQ p1 p2)"
  by (simp add: cMergePositions_def LayoutPos_init_wf)

text \<open>
  Claim C10. A position built by \<open>LayoutPos.__init__\<close> with base N (78) stores quality 0
  whatever quality is passed, and with any other base it stores the quality passed. In
  particular the ambiguous position that \<open>cMergePositions\<close> builds for two positions of
  equal base whose operations differ, neither being a soft clip, has base N, operation N
  and quality 0, not the \<open>-137\<close> written at the construction site.
\<close>

theorem LayoutPos_init_quality:
  "quality (LayoutPos_init p rp 78 opn q a m ma) = 0
   \<and> (b \<noteq> 78 \<longrightarrow> quality (LayoutPos_init p rp b opn q a m ma) = q)
   \<and> (base p1 = base p2 \<and> operation p2 \<noteq> operation p1
        \<and> operation p2 \<noteq> 83 \<and> operation p1 \<noteq> 83
      \<longrightarrow> base (cMergePositions MAQ MDQ p1 p2) = 78
        \<and> operation (cMergePositions MAQ MDQ p1 p2) = 78
        \<and> mergeAgreed (cMergePositions MAQ MDQ p1 p2) = 0
        \<and> agreement (cMergePositions MAQ MDQ p1 p2) = - 137
        \<and> quality (cMergePositions MAQ MDQ p1 p2) = 0)"
  by (simp add: LayoutPos_init_def cMergePositions_def)

theorem LayoutPos_init_quality_witness:
  "quality (LayoutPos_init 5 6 78 77 40 1 False 1) = 0
   \<and> quality (LayoutPos_init 5 6 65 77 40 1 False 1) = 40
   \<and> quality (cMergePositions (\<lambda>a b. a + b) (\<lambda>a b. a - b)
        (LayoutPos_init 5 6 65 77 40 1 False 1)
        (LayoutPos_init 5 6 65 73 30 1 False 1)) = 0
   \<and> base (cMergePositions (\<lambda>a b. a + b) (\<lambda>a b. a - b)
        (LayoutPos_init 5 6 65 77 40 1 False 1)
        (LayoutPos_init 5 6 65 73 30 1 False 1)) = 78"
  using LayoutPos_init_quality [of 5 6 77 40 1 False 1 65
      "LayoutPos_init 5 6 65 77 40 1 False 1" "LayoutPos_init 5 6 65 73 30 1 False 1"
      "\<lambda>a b. a + b" "\<lambda>a b. a - b"]
  by (simp add: LayoutPos_init_def)

lemma c_int_add_in_range:
  "- 2147483648 \<le> a + b \<Longrightarrow> a + b < 2147483648 \<Longrightarrow> c_int_add a b = a + b"
  by (simp add: c_int_add_def)

text \<open>
  Claim C3. \<open>cMergePositions\<close> on two positions of equal operation kind, each built by
  \<open>LayoutPos.__init__\<close>. If the bases are equal, the result is marked merged with
  \<open>mergeAgreed = 2\<close> (agreement), its agreement count is the sum of the two counts as
  the 32-bit addition of the code gives it, which is the sum of the two counts whenever
  that sum fits a C \<open>int\<close>, and its quality is at least the maximum of the two
  qualities, provided the quality-boosting function keeps its contract at these two
  qualities. If the bases differ, the result is marked merged with \<open>mergeAgreed = 0\<close>
  (disagreement), its base is the base of the first position when that one has the
  strictly higher quality and of the second position otherwise (so the base of an input
  of maximal quality), and its quality is at most the maximum of the two qualities,
  provided the quality-penalizing function keeps its contract at these two qualities. In
  both cases the quality stored is the value of the quality function, or 0 when the
  resulting base is N.
\<close>

theorem cMergePositions_equal_operation:
  assumes "operation p1 = operation p2"
    and "LayoutPos_wf p1" and "LayoutPos_wf p2"
    and "agreed_boosts MAQ (quality p1) (quality p2)"
    and "disc_penalizes MDQ (quality p1) (quality p2)"
  shows "(base p1 = base p2 \<longrightarrow>
            merged (cMergePositions MAQ MDQ p1 p2)
          \<and> mergeAgreed (cMergePositions MAQ MDQ p1 p2) = 2
          \<and> base (cMergePositions MAQ MDQ p1 p2) = base p1
          \<and> operation (cMergePositions MAQ MDQ p1 p2) = operation p1
          \<and> agreement (cMergePositions MAQ MDQ p1 p2)
              = c_int_add (agreement p1) (agreement p2)
          \<and> (- 2147483648 \<le> agreement p1 + agreement p2
                \<and> agreement p1 + agreement p2 < 2147483648
              \<longrightarrow> agreement (cMergePositions MAQ MDQ p1 p2)
                    = agreement p1 + agreement p2)
          \<and> quality (cMergePositions MAQ MDQ p1 p2)
              = (if base p1 = 78 then 0 else MAQ (quality p1) (quality p2))
          \<and> max (quality p1) (quality p2) \<le> quality (cMergePositions MAQ MDQ p1 p2))
       \<and> (base p1 \<noteq> base p2 \<longrightarrow>
            merged (cMergePositions MAQ MDQ p1 p2)
          \<and> mergeAgreed (cMergePositions MAQ MDQ p1 p2) = 0
          \<and> operation (cMergePositions MAQ MDQ p1 p2) = operation p1
          \<and> base (cMergePositions MAQ MDQ p1 p2)
              = (if quality p1 > quality p2 then base p1 else base p2)
          \<and> (base (cMergePositions MAQ MDQ p1 p2) = base p1
                \<longrightarrow> quality p1 = max (quality p1) (quality p2))
          \<and> (base (cMergePositions MAQ MDQ p1 p2) = base p2
                \<longrightarrow> quality p2 = max (quality p1) (quality p2))
          \<and> quality (cMergePositions MAQ MDQ p1 p2)
              = (if base (cMergePositions MAQ MDQ p1 p2) = 78 then 0
                 else MDQ (max (quality p1) (quality p2)) (min (quality p1) (quality p2)))
          \<and> quality (cMergePositions MAQ MDQ p1 p2) \<le> max (quality p1) (quality p2))"
proof (cases "base p1 = base p2")
  case True
  have q: "max (quality p1) (quality p2) \<le> MAQ (quality p1) (quality p2)"
    using assms(4) by (simp add: agreed_boosts_def)
  show ?thesis
  proof (cases "base p1 = 78")
    case N: True
    then have "quality p1 = 0" and "quality p2 = 0"
      using assms(2,3) True by (simp_all add: LayoutPos_wf_def)
    then show ?thesis
      using True N assms(1)
      by (simp add: cMergePositions_def LayoutPos_init_def c_int_add_in_range)
  next
    case N: False
    then show ?thesis
      using True assms(1) q
      by (simp add: cMergePositions_def LayoutPos_init_def c_int_add_in_range)
  qed
next
  case False
  have d: "MDQ (max (quality p1) (quality p2)) (min (quality p1) (quality p2))
             \<le> max (quality p1) (quality p2)"
    using assms(5) by (simp add: disc_penalizes_def)
  show ?thesis
  proof (cases "quality p1 > quality p2")
    case True
    then have m: "max (quality p1) (quality p2) = quality p1"
      "min (quality p1) (quality p2) = quality p2" by simp_all
    have n: "base p1 = 78 \<Longrightarrow> quality p1 = 0"
      using assms(2) by (simp add: LayoutPos_wf_def)
    show ?thesis
      using \<open>base p1 \<noteq> base p2\<close> True assms(1) d n unfolding m
      by (auto simp add: cMergePositions_def LayoutPos_init_def)
  next
    case False
    then have m: "max (quality p1) (quality p2) = quality p2"
      "min (quality p1) (quality p2) = quality p1" by simp_all
    have n: "base p2 = 78 \<Longrightarrow> quality p2 = 0"
      using assms(3) by (simp add: LayoutPos_wf_def)
    show ?thesis
      using \<open>base p1 \<noteq> base p2\<close> False assms(1) d n unfolding m
      by (auto simp add: cMergePositions_def LayoutPos_init_def)
  qed
qed

theorem cMergePositions_equal_operation_witness:
  "(let a = LayoutPos_init 100 0 65 77 30 1 False 1;
        b = LayoutPos_init 100 7 65 77 20 2 False 1;
        c = LayoutPos_init 100 7 67 77 20 2 False 1;
        MAQ = (\<lambda>x y. x + y); MDQ = (\<lambda>x y. x - y)
    in operation a = operation b \<and> operation a = operation c
     \<and> LayoutPos_wf a \<and> LayoutPos_wf b \<and> LayoutPos_wf c
     \<and> agreed_boosts MAQ (quality a) (quality b)
     \<and> disc_penalizes MDQ (quality a) (quality c)
     \<and> - 2147483648 \<le> agreement a + agreement b
     \<and> agreement a + agreement b < 2147483648
     \<and> mergeAgreed (cMergePositions MAQ MDQ a b) = 2
     \<and> agreement (cMergePositions MAQ MDQ a b) = 3
     \<and> quality (cMergePositions MAQ MDQ a b) = 50
     \<and> mergeAgreed (cMergePositions MAQ MDQ a c) = 0
     \<and> base (cMergePositions MAQ MDQ a c) = 65
     \<and> quality (cMergePositions MAQ MDQ a c) = 10)"
proof -
  let ?a = "LayoutPos_init 100 0 65 77 30 1 False 1"
  let ?b = "LayoutPos_init 100 7 65 77 20 2 False 1"
  let ?c = "LayoutPos_init 100 7 67 77 20 2 False 1"
  have ops: "operation ?a = operation ?b" "operation ?a = operation ?c"
    by (simp_all add: LayoutPos_init_def)
  have wf: "LayoutPos_wf ?a" "LayoutPos_wf ?b" "LayoutPos_wf ?c"
    by (simp_all add: LayoutPos_wf_def LayoutPos_init_def)
  have c1: "agreed_boosts (\<lambda>x y. x + y) (quality ?a) (quality ?b)"
    "agreed_boosts (\<lambda>x y. x + y) (quality ?a) (quality ?c)"
    by (simp_all add: agreed_boosts_def LayoutPos_init_def)
  have c2: "disc_penalizes (\<lambda>x y. x - y) (quality ?a) (quality ?b)"
    "disc_penalizes (\<lambda>x y. x - y) (quality ?a) (quality ?c)"
    by (simp_all add: disc_penalizes_def LayoutPos_init_def)
  show ?thesis
    using cMergePositions_equal_operation [OF ops(1) wf(1) wf(2) c1(1) c2(1)]
      cMergePositions_equal_operation [OF ops(2) wf(1) wf(3) c1(2) c2(2)]
      ops wf c1 c2
    by (simp add: Let_def cMergePositions_def LayoutPos_init_def c_int_add_def)
qed

text \<open>
  The agreement count of the result is not the sum of the two counts when that sum does
  not fit a C \<open>int\<close>: two positions of equal base and operation with the agreement
  counts \<open>2147483647\<close> and \<open>1\<close>, whose sum is \<open>2147483648\<close>, merge into a position
  with the agreement count \<open>- 2147483648\<close>.
\<close>

theorem cMergePositions_agreement_wraps:
  "operation (LayoutPos_init 100 0 65 77 30 2147483647 False 1)
     = operation (LayoutPos_init 100 7 65 77 20 1 False 1)
   \<and> base (LayoutPos_init 100 0 65 77 30 2147483647 False 1)
     = base (LayoutPos_init 100 7 65 77 20 1 False 1)
   \<and> agreement (LayoutPos_init 100 0 65 77 30 2147483647 False 1)
       + agreement (LayoutPos_init 100 7 65 77 20 1 False 1) = 2147483648
   \<and> agreement (cMergePositions (\<lambda>x y. x + y) (\<lambda>x y. x - y)
        (LayoutPos_init 100 0 65 77 30 2147483647 False 1)
        (LayoutPos_init 100 7 65 77 20 1 False 1)) = - 2147483648
   \<and> agreement (cMergePositions (\<lambda>x y. x + y) (\<lambda>x y. x - y)
        (LayoutPos_init 100 0 65 77 30 2147483647 False 1)
        (LayoutPos_init 100 7 65 77 20 1 False 1))
     \<noteq> agreement (LayoutPos_init 100 0 65 77 30 2147483647 False 1)
         + agreement (LayoutPos_init 100 7 65 77 20 1 False 1)"
  by (simp add: cMergePositions_def LayoutPos_init_def c_int_add_def)

section \<open>Properties of the quality codec\<close>

lemma ph2chr_min: "(if i < 94 then i + 33 else 126) = min i 93 + (33::int)"
  by simp

lemma ph2chr_code:
  assumes "0 \<le> (q::int)"
  shows "(of_char (char_of (min q 93 + 33)) :: int) = min q 93 + 33"
proof -
  have "0 \<le> min q 93 + 33" and "min q 93 + 33 < 256"
    using assms by simp_all
  then show ?thesis by simp
qed

text \<open>
  Claim C7. Both encoders (\<open>PyArr2QualStr\<close> of the base caller and
  \<open>PyLayout.cGetQualString\<close> of the layout) encode a quality \<open>q \<ge> 0\<close> as the character
  of code \<open>min q 93 + 33\<close>. Every character they emit has a code between 33 and 126, and
  decoding the encoded string (subtracting 33 from each code) gives \<open>min q 93\<close> at every
  position; this holds for every \<open>q \<ge> 0\<close>, so in particular for \<open>0 \<le> q \<le> 200\<close>.
\<close>

theorem quality_codec_roundtrip:
  "(list_all (\<lambda>q. 0 \<le> q) qs \<longrightarrow>
      PyArr2QualStr qs = Inr (map (\<lambda>q. char_of (min q 93 + 33)) qs)
    \<and> list_all (\<lambda>c. (33::int) \<le> of_char c \<and> of_char c \<le> (126::int))
         (map (\<lambda>q. char_of (min q 93 + 33)) qs)
    \<and> map phred_of_char (map (\<lambda>q. char_of (min q 93 + 33)) qs) = map (\<lambda>q. min q 93) qs)
   \<and> cGetQualString L = map (\<lambda>q. char_of (min q 93 + 33)) (cGetQual L)
   \<and> list_all (\<lambda>c. (33::int) \<le> of_char c \<and> of_char c \<le> (126::int)) (cGetQualString L)
   \<and> map phred_of_char (cGetQualString L) = map (\<lambda>q. min q 93) (cGetQual L)"
proof -
  have enc: "list_all (\<lambda>q. 0 \<le> q) xs \<Longrightarrow>
      list_all (\<lambda>c. (33::int) \<le> of_char c \<and> of_char c \<le> (126::int))
         (map (\<lambda>q. char_of (min q 93 + 33)) xs)
    \<and> map phred_of_char (map (\<lambda>q. char_of (min q 93 + 33)) xs) = map (\<lambda>q. min q 93) xs"
    for xs :: "int list"
  proof (induction xs)
    case Nil
    then show ?case by (simp add: phred_of_char_def)
  next
    case (Cons x xs)
    then have x: "0 \<le> x" by simp
    have "(of_char (char_of (min x 93 + 33)) :: int) = min x 93 + 33"
      using x by (rule ph2chr_code)
    then show ?case using Cons by (simp add: phred_of_char_def)
  qed
  have py: "list_all (\<lambda>q. 0 \<le> q) qs \<Longrightarrow>
      PyArr2QualStr qs = Inr (map (\<lambda>q. char_of (min q 93 + 33)) qs)"
    by (simp add: PyArr2QualStr_def list_ex_iff list_all_iff ph2chr_min not_less)
  have nn: "list_all (\<lambda>q. 0 \<le> q) (cGetQual L)"
    by (simp add: cGetQual_def list_all_iff)
  have gq: "cGetQualString L = map (\<lambda>q. char_of (min q 93 + 33)) (cGetQual L)"
    by (simp add: cGetQualString_def ph2chr_min)
  show ?thesis
    using enc [of qs] py enc [OF nn] gq by simp
qed

theorem quality_codec_roundtrip_witness:
  "list_all (\<lambda>q. 0 \<le> q) [0, 40, 93, 94, 200 :: int]
   \<and> PyArr2QualStr [0, 40, 93, 94, 200] = Inr [CHR 0x21, CHR ''I'', CHR 0x7E, CHR 0x7E, CHR 0x7E]
   \<and> map phred_of_char [CHR 0x21, CHR ''I'', CHR 0x7E, CHR 0x7E, CHR 0x7E] = [0, 40, 93, 93, 93]"
proof -
  have h: "list_all (\<lambda>q. 0 \<le> q) [0, 40, 93, 94, 200 :: int]" by simp
  have e: "map (\<lambda>q. char_of (min q 93 + 33)) [0, 40, 93, 94, 200 :: int]
             = [CHR 0x21, CHR ''I'', CHR 0x7E, CHR 0x7E, CHR 0x7E]"
    by (simp add: char_of_def)
  show ?thesis
    using quality_codec_roundtrip [of "[0, 40, 93, 94, 200]"] h unfolding e
    by simp
qed

section \<open>Properties of the Fisher flattening\<close>

lemma flatten_step_chiSums_cong:
  assumes "chiSums (fst st) = chiSums (fst st')"
  shows "chiSums (fst (flatten_step E rLen ob st)) = chiSums (fst (flatten_step E rLen ob st'))"
  using assms by (cases ob; cases st; cases st') (simp add: flatten_step_def Let_def)

lemma flatten_step_N_chiSums:
  assumes "fst (snd ob) \<notin> {65, 67, 71, 84}"
  shows "chiSums (fst (flatten_step E rLen ob st)) = chiSums (fst st)"
  using assms by (cases ob; cases st) (simp add: flatten_step_def Let_def)

lemma fold_flatten_chiSums:
  assumes "chiSums (fst st) = chiSums (fst st')"
  shows "chiSums (fst (fold (flatten_step E rLen) obs st))
       = chiSums (fst (fold (flatten_step E rLen) (filter (\<lambda>ob. fst (snd ob) \<noteq> 78) obs) st'))"
  using assms
proof (induction obs arbitrary: st st')
  case Nil
  then show ?case by simp
next
  case (Cons ob obs)
  show ?case
  proof (cases "fst (snd ob) = 78")
    case True
    then have "chiSums (fst (flatten_step E rLen ob st)) = chiSums (fst st')"
      using Cons.prems by (simp add: flatten_step_N_chiSums)
    then show ?thesis using True Cons.IH by simp
  next
    case False
    have "chiSums (fst (flatten_step E rLen ob st)) = chiSums (fst (flatten_step E rLen ob st'))"
      using Cons.prems by (rule flatten_step_chiSums_cong)
    then show ?thesis using False Cons.IH by simp
  qed
qed

text \<open>
  The chi-square sums ignore the N observations: they are the sums of the family with
  every observation of base N removed, whatever the addition of doubles is.
\<close>

lemma accumulate_chiSums_ignore_N:
  "chiSums (fst (accumulate E rLen obs))
     = chiSums (fst (accumulate E rLen (filter (\<lambda>ob. fst (snd ob) \<noteq> 78) obs)))"
  unfolding accumulate_def by (rule fold_flatten_chiSums) simp

lemma observations_A_N:
  "observations (Suc 0) 2 [65, 78] [30, 30] = [(0, 65, 30), (0, 78, 30)]"
  by (simp add: observations_def upt_rec)

text \<open>
  Claim C2. The claim says that an N base contributes nothing to the sums and to the
  counts. The sums keep to it (\<open>accumulate_chiSums_ignore_N\<close>), the counts do not: the
  increment of the count stands after the case distinction and uses the index left by the
  last A, C, G or T (0 before the first one). For the family of the two reads A and N of
  length 1, the count of candidate A at position 0 is 2, while the same family without
  the N observation gives 1.
\<close>

theorem accumulate_counts_N_observation:
  "counts (fst (accumulate E 1 (observations 1 2 [65, 78] [30, 30]))) = [2, 0, 0, 0]
   \<and> counts (fst (accumulate E 1
        (filter (\<lambda>ob. fst (snd ob) \<noteq> 78) (observations 1 2 [65, 78] [30, 30]))))
       = [1, 0, 0, 0]"
  unfolding One_nat_def observations_A_N
  by (simp add: accumulate_def flatten_step_def add_at_def Let_def) (simp add: numeral_eq_Suc)

lemma those_map_Some:
  assumes "\<And>x. x \<in> set xs \<Longrightarrow> f x = Some (g x)"
  shows "those (map f xs) = Some (map g xs)"
  using assms by (induction xs) simp_all

lemma call_position_Some:
  assumes "winner E rLen Sums i < 4"
  shows "call_position E rLen Sums i =
           Some (ARGMAX_CONV E (winner E rLen Sums i),
                 (if tmpQual E rLen Sums i > 0 then tmpQual E rLen Sums i else 3114),
                 counts Sums ! (i + winner E rLen Sums i * rLen))"
  using assms by (simp add: call_position_def Let_def)

lemma cFisherFlatten_returns:
  assumes "length Seqs = rLen * nRecs" and "length Quals = rLen * nRecs"
    and "\<And>a c g t. argmax4 E a c g t < 4"
  shows "\<exists>ret. cFisherFlatten E Seqs Quals rLen nRecs = Some ret
           \<and> length (Qual ret) = rLen
           \<and> (\<forall>i<rLen.
                 0 < Qual ret ! i
               \<and> (tmpQual E rLen (fst (accumulate E rLen (observations rLen nRecs Seqs Quals))) i \<le> 0
                    \<longrightarrow> Qual ret ! i = 3114)
               \<and> (0 < tmpQual E rLen (fst (accumulate E rLen (observations rLen nRecs Seqs Quals))) i
                    \<longrightarrow> Qual ret ! i
                        = tmpQual E rLen (fst (accumulate E rLen (observations rLen nRecs Seqs Quals))) i))"
proof -
  let ?Sums = "fst (accumulate E rLen (observations rLen nRecs Seqs Quals))"
  let ?g = "\<lambda>i. (ARGMAX_CONV E (winner E rLen ?Sums i),
                 (if tmpQual E rLen ?Sums i > 0 then tmpQual E rLen ?Sums i else 3114),
                 counts ?Sums ! (i + winner E rLen ?Sums i * rLen))"
  have w: "winner E rLen ?Sums i < 4" for i
    using assms(3) by (simp add: winner_def)
  have t: "those (map (call_position E rLen ?Sums) [0 ..< rLen]) = Some (map ?g [0 ..< rLen])"
    by (rule those_map_Some) (simp add: call_position_Some [OF w])
  have r: "cFisherFlatten E Seqs Quals rLen nRecs
             = Some \<lparr>Seq = map fst (map ?g [0 ..< rLen]),
                     Qual = map (\<lambda>t. fst (snd t)) (map ?g [0 ..< rLen]),
                     Agree = map (\<lambda>t. snd (snd t)) (map ?g [0 ..< rLen])\<rparr>"
    using assms(1,2) t by (simp add: cFisherFlatten_def Let_def)
  show ?thesis
    unfolding r by (simp add: o_def)
qed

lemma accumulate_int_numerics_A_N:
  "accumulate (int_numerics f) (Suc 0) [(0, 65, 30), (0, 78, 30)]
     = (\<lparr>counts = [2, 0, 0, 0], chiSums = [30, 0, 0, 0]\<rparr>, 0)"
  by (simp add: accumulate_def flatten_step_def add_at_def Let_def int_numerics_def)
     (simp add: numeral_eq_Suc)

lemma cFisherFlatten_int_numerics_A_N:
  "cFisherFlatten (int_numerics f) [65, 78] [30, 30] 1 2
     = Some \<lparr>Seq = [65], Qual = [if f 2 30 > 0 then f 2 30 else 3114], Agree = [2]\<rparr>"
  by (simp add: cFisherFlatten_def observations_A_N accumulate_int_numerics_A_N
        call_position_def winner_def tmpQual_def Let_def)
     (simp add: int_numerics_def)

lemma those_Some_map:
  assumes "those (map f xs) = Some ys"
  shows "length ys = length xs \<and> (\<forall>i < length xs. f (xs ! i) = Some (ys ! i))"
  using assms
proof (induction xs arbitrary: ys)
  case Nil
  then show ?case by simp
next
  case (Cons x xs)
  from Cons.prems obtain y ys' where
    y: "f x = Some y" and t: "those (map f xs) = Some ys'" and ys: "ys = y # ys'"
    by (auto split: option.splits)
  from Cons.IH [OF t] have
    "length ys' = length xs" "\<forall>i < length xs. f (xs ! i) = Some (ys' ! i)" by simp_all
  then show ?case using y ys by (auto simp: nth_Cons split: nat.splits)
qed

lemma call_position_quality:
  assumes "call_position E rLen Sums i = Some t"
  shows "fst (snd t) = (if tmpQual E rLen Sums i > 0 then tmpQual E rLen Sums i else 3114)"
  using assms by (auto simp: call_position_def Let_def split: if_splits)

lemma cFisherFlatten_Some_quality:
  assumes "cFisherFlatten E Seqs Quals rLen nRecs = Some ret" and "i < rLen"
  shows "length (Qual ret) = rLen"
    and "Qual ret ! i
           = (if tmpQual E rLen (fst (accumulate E rLen (observations rLen nRecs Seqs Quals))) i > 0
              then tmpQual E rLen (fst (accumulate E rLen (observations rLen nRecs Seqs Quals))) i
              else 3114)"
proof -
  let ?Sums = "fst (accumulate E rLen (observations rLen nRecs Seqs Quals))"
  from assms(1) obtain ts where
    t: "those (map (call_position E rLen ?Sums) [0 ..< rLen]) = Some ts"
    and r: "Qual ret = map (\<lambda>t. fst (snd t)) ts"
    by (auto simp: cFisherFlatten_def Let_def split: if_splits option.splits)
  from those_Some_map [OF t] have
    l: "length ts = rLen" and c: "call_position E rLen ?Sums i = Some (ts ! i)"
    using assms(2) by simp_all
  show "length (Qual ret) = rLen" using r l by simp
  show "Qual ret ! i = (if tmpQual E rLen ?Sums i > 0 then tmpQual E rLen ?Sums i else 3114)"
    using call_position_quality [OF c] r l assms(2) by simp
qed


text \<open>
  The clamp of \<open>cFisherFlatten\<close> on the integer that the cast has produced. Whenever
  \<open>cFisherFlatten\<close> returns, it returns a quality for each of the \<open>rLen\<close> positions, and
  at every position: the quality is a positive integer; it is 3114 whenever the integer
  \<open>tmpQual\<close> is negative or zero; and it is \<open>tmpQual\<close> itself otherwise. It does return
  for flattened arrays of the declared size and a candidate index within 0..3. The lemma
  says nothing of the floating-point computation before the cast: which integer the cast
  yields for a p-value that has underflowed to zero (the cast of an infinite \<open>double\<close>
  is undefined in C) is not part of the model.
\<close>

lemma cFisherFlatten_quality_floor:
  "(length Seqs = rLen * nRecs \<and> length Quals = rLen * nRecs
      \<and> (\<forall>a c g t. argmax4 E a c g t < 4)
    \<longrightarrow> (\<exists>ret. cFisherFlatten E Seqs Quals rLen nRecs = Some ret))
   \<and> (\<forall>ret i. cFisherFlatten E Seqs Quals rLen nRecs = Some ret \<and> i < rLen \<longrightarrow>
         length (Qual ret) = rLen
       \<and> 0 < Qual ret ! i
       \<and> (tmpQual E rLen (fst (accumulate E rLen (observations rLen nRecs Seqs Quals))) i \<le> 0
            \<longrightarrow> Qual ret ! i = 3114)
       \<and> (0 < tmpQual E rLen (fst (accumulate E rLen (observations rLen nRecs Seqs Quals))) i
            \<longrightarrow> Qual ret ! i
                = tmpQual E rLen (fst (accumulate E rLen (observations rLen nRecs Seqs Quals))) i))"
proof (intro conjI impI allI)
  assume "length Seqs = rLen * nRecs \<and> length Quals = rLen * nRecs
      \<and> (\<forall>a c g t. argmax4 E a c g t < 4)"
  then show "\<exists>ret. cFisherFlatten E Seqs Quals rLen nRecs = Some ret"
    using cFisherFlatten_returns [of Seqs rLen nRecs Quals E] by blast
next
  fix ret i
  assume a: "cFisherFlatten E Seqs Quals rLen nRecs = Some ret \<and> i < rLen"
  then have s: "cFisherFlatten E Seqs Quals rLen nRecs = Some ret" and i: "i < rLen"
    by simp_all
  note q = cFisherFlatten_Some_quality [OF s i]
  show "length (Qual ret) = rLen" by (rule q(1))
  show "0 < Qual ret ! i" unfolding q(2) by simp
  show "Qual ret ! i = 3114"
    if "tmpQual E rLen (fst (accumulate E rLen (observations rLen nRecs Seqs Quals))) i \<le> 0"
    unfolding q(2) using that by simp
  show "Qual ret ! i
      = tmpQual E rLen (fst (accumulate E rLen (observations rLen nRecs Seqs Quals))) i"
    if "0 < tmpQual E rLen (fst (accumulate E rLen (observations rLen nRecs Seqs Quals))) i"
    unfolding q(2) using that by simp
qed

lemma cFisherFlatten_quality_floor_example:
  "length [65, 78 :: int] = 1 * 2 \<and> length [30, 30 :: int] = 1 * 2
   \<and> (\<forall>a c g t. argmax4 (int_numerics (\<lambda>n x. n - x)) a c g t < 4)
   \<and> cFisherFlatten (int_numerics (\<lambda>n x. n - x)) [65, 78] [30, 30] 1 2
       = Some \<lparr>Seq = [65], Qual = [3114], Agree = [2]\<rparr>
   \<and> (0::nat) < 1
   \<and> tmpQual (int_numerics (\<lambda>n x. n - x)) 1
       (fst (accumulate (int_numerics (\<lambda>n x. n - x)) 1
              (observations 1 2 [65, 78] [30, 30]))) 0 = - 28
   \<and> Qual \<lparr>Seq = [65], Qual = [3114], Agree = [2]\<rparr> ! 0 = 3114"
proof -
  have a: "\<forall>a c g t. argmax4 (int_numerics (\<lambda>n x. n - x)) a c g t < 4"
    by (simp add: int_numerics_def)
  have t: "tmpQual (int_numerics (\<lambda>n x. n - x)) 1
       (fst (accumulate (int_numerics (\<lambda>n x. n - x)) 1
              (observations 1 2 [65, 78] [30, 30]))) 0 = - 28"
    unfolding One_nat_def observations_A_N accumulate_int_numerics_A_N
    by (simp add: tmpQual_def winner_def Let_def) (simp add: int_numerics_def)
  have e: "cFisherFlatten (int_numerics (\<lambda>n x. n - x)) [65, 78] [30, 30] 1 2
       = Some \<lparr>Seq = [65], Qual = [3114], Agree = [2]\<rparr>"
    using cFisherFlatten_int_numerics_A_N [of "\<lambda>n x. n - x"] by simp
  have "Qual \<lparr>Seq = [65], Qual = [3114], Agree = [2]\<rparr> ! 0 = 3114"
    using cFisherFlatten_quality_floor [of "[65, 78]" 1 2 "[30, 30]"
        "int_numerics (\<lambda>n x. n - x)"] e t
    by simp
  then show ?thesis using a t e by simp
qed

section \<open>Properties of the consolidation of a family\<close>

lemma split_on_append:
  assumes "c \<notin> set a"
  shows "split_on c (a @ c # b) = a # split_on c b"
  using assms by (induction a) auto

lemma split_on_none:
  assumes "c \<notin> set a"
  shows "split_on c a = [a]"
  using assms by (induction a) auto

lemma str_int_1: "str_int 1 = ''1''"
  by code_simp

lemma join_replicate_1:
  "join '','' (replicate (Suc n) ''1'') = ''1'' @ concat (replicate n '',1'')"
  by (induction n) simp_all

lemma singleton_FA:
  "''|FA='' @ ''1'' @ concat (replicate (rLen - 1) '',1'')
     = PyArr2FAString (replicate (max 1 rLen) 1)"
proof -
  have "max 1 rLen = Suc (rLen - 1)" by simp
  then show ?thesis
    by (simp only: PyArr2FAString_def map_replicate str_int_1 join_replicate_1) 
qed

lemma digit_not_LF: "k < 10 \<Longrightarrow> char_of (48 + k :: nat) \<noteq> LF"
proof
  assume k: "k < 10" and "char_of (48 + k) = LF"
  then have "(of_char (char_of (48 + k)) :: nat) = of_char LF" by simp
  then show False using k by (simp add: LF_def)
qed

lemma LF_str_nat: "LF \<notin> set (str_nat n)"
proof (induction n rule: str_nat.induct)
  case (1 n)
  show ?case
  proof (cases "n < 10")
    case True
    then show ?thesis using digit_not_LF [of n] by (subst str_nat.simps) auto
  next
    case False
    have "n mod 10 < 10" by simp
    then have "char_of (48 + n mod 10) \<noteq> LF" by (rule digit_not_LF)
    then show ?thesis using False 1 by (subst str_nat.simps) auto
  qed
qed

lemma LF_str_int: "LF \<notin> set (str_int i)"
proof -
  have "CHR ''-'' \<noteq> LF" by (simp add: LF_def)
  then show ?thesis by (auto simp: str_int_def LF_str_nat)
qed

lemma LF_join:
  assumes "\<And>x. x \<in> set xs \<Longrightarrow> LF \<notin> set x"
  shows "LF \<notin> set (join '','' xs)"
proof -
  have c: "LF \<notin> set '',''" by (simp add: LF_def)
  show ?thesis
    using assms c by (induction "'',''" xs rule: join.induct) auto
qed

lemma LF_PV: "LF \<notin> set (PyArr2PVString xs)" "LF \<notin> set (cQualArr2PVString xs)"
  "LF \<notin> set (PyArr2FAString xs)"
proof -
  have j: "LF \<notin> set (join '','' (map str_int xs))"
    by (rule LF_join) (auto simp: LF_str_int)
  have p: "LF \<notin> set ''|PV=''" "LF \<notin> set ''|FA=''" by (simp_all add: LF_def)
  show "LF \<notin> set (PyArr2PVString xs)" "LF \<notin> set (cQualArr2PVString xs)"
    "LF \<notin> set (PyArr2FAString xs)"
    using j p by (simp_all add: PyArr2PVString_def cQualArr2PVString_def PyArr2FAString_def)
qed

lemma split_fq_text:
  assumes "LF \<notin> set nm" "LF \<notin> set cmt" "LF \<notin> set tags" "LF \<notin> set sq" "LF \<notin> set ql"
  shows "split_on LF (fq_text nm cmt tags sq ql)
           = [''@'' @ nm @ '' '' @ cmt @ tags, sq, ''+'', ql, '''']"
proof -
  have h: "LF \<notin> set (''@'' @ nm @ '' '' @ cmt @ tags)"
    using assms by (simp add: LF_def)
  have p: "LF \<notin> set ''+''" by (simp add: LF_def)
  have "fq_text nm cmt tags sq ql
          = (''@'' @ nm @ '' '' @ cmt @ tags) @ LF # (sq @ LF # (''+'' @ LF # (ql @ LF # [])))"
    by (simp add: fq_text_def)
  then show ?thesis
    by (simp only: split_on_append [OF h] split_on_append [OF assms(4)]
          split_on_append [OF p] split_on_append [OF assms(5)] split_on.simps)
qed


text \<open>
  Claim C1. For a family of one record \<open>r\<close>, both consolidation functions return the
  record text whose header carries the tags \<open>|FM=1|ND=0\<close>, then the FA tag, then the
  PV tag, and whose sequence and quality lines are those of \<open>r\<close>, character for
  character. The FA tag is the encoding (by the encoder the larger families use) of an
  array of ones that has an entry for every position of the read, and a single entry for
  a read of length 0. Where no field holds a line feed, splitting the output at line
  feeds gives five parts: the header, the sequence of \<open>r\<close>, \<open>+\<close>, the quality string of
  \<open>r\<close>, and the empty string after the last line feed.
\<close>

theorem singleton_family_verbatim:
  "cFastFisherFlattening E arrmax [r] nm
     = Inr (fq_text (case nm of None \<Rightarrow> name r | Some n \<Rightarrow> n) (comment r)
              (''|FM=1|ND=0'' @ PyArr2FAString (replicate (max 1 (length (sequence r))) 1)
                 @ PyArr2PVString (getQualArray r))
              (sequence r) (quality_fq r))
   \<and> cCompareFqRecsFast [r] nm minPVFrac minFAFrac minMaxFA
     = Inr (fq_text (case nm of None \<Rightarrow> name r | Some n \<Rightarrow> n) (comment r)
              (''|FM=1|ND=0'' @ PyArr2FAString (replicate (max 1 (length (sequence r))) 1)
                 @ cQualArr2PVString (getQualArray r))
              (sequence r) (quality_fq r))
   \<and> length (replicate (max 1 (length (sequence r))) (1::int)) \<ge> length (sequence r)
   \<and> (\<forall>i < length (sequence r). replicate (max 1 (length (sequence r))) (1::int) ! i = 1)
   \<and> (LF \<notin> set (case nm of None \<Rightarrow> name r | Some n \<Rightarrow> n) \<and> LF \<notin> set (comment r)
        \<and> LF \<notin> set (sequence r) \<and> LF \<notin> set (quality_fq r) \<longrightarrow>
      (\<forall>out. cFastFisherFlattening E arrmax [r] nm = Inr out
              \<or> cCompareFqRecsFast [r] nm minPVFrac minFAFrac minMaxFA = Inr out \<longrightarrow>
         length (split_on LF out) = 5
       \<and> split_on LF out ! 1 = sequence r \<and> split_on LF out ! 2 = ''+''
       \<and> split_on LF out ! 3 = quality_fq r \<and> split_on LF out ! 4 = []))"
proof -
  let ?nm = "case nm of None \<Rightarrow> name r | Some n \<Rightarrow> n"
  let ?fa = "PyArr2FAString (replicate (max 1 (length (sequence r))) 1)"
  have tags: "singleton_tags (length (sequence r)) pv = ''|FM=1|ND=0'' @ ?fa @ pv" for pv
    using singleton_FA [of "length (sequence r)"] by (simp add: singleton_tags_def)
  have a: "cFastFisherFlattening E arrmax [r] nm
     = Inr (fq_text ?nm (comment r) (''|FM=1|ND=0'' @ ?fa @ PyArr2PVString (getQualArray r))
              (sequence r) (quality_fq r))"
    by (simp add: cFastFisherFlattening_def Let_def tags)
  have b: "cCompareFqRecsFast [r] nm minPVFrac minFAFrac minMaxFA
     = Inr (fq_text ?nm (comment r) (''|FM=1|ND=0'' @ ?fa @ cQualArr2PVString (getQualArray r))
              (sequence r) (quality_fq r))"
    by (simp add: cCompareFqRecsFast_def Let_def tags)
  have t: "LF \<notin> set (''|FM=1|ND=0'' @ ?fa @ pv)" if "LF \<notin> set pv" for pv
  proof -
    have "LF \<notin> set ''|FM=1|ND=0''" by (simp add: LF_def)
    then show ?thesis using that LF_PV(3) [of "replicate (max 1 (length (sequence r))) 1"]
      by (simp only: set_append Un_iff) simp
  qed
  have s: "length (split_on LF (fq_text ?nm (comment r) (''|FM=1|ND=0'' @ ?fa @ pv)
                    (sequence r) (quality_fq r))) = 5
       \<and> split_on LF (fq_text ?nm (comment r) (''|FM=1|ND=0'' @ ?fa @ pv)
                    (sequence r) (quality_fq r)) ! 1 = sequence r
       \<and> split_on LF (fq_text ?nm (comment r) (''|FM=1|ND=0'' @ ?fa @ pv)
                    (sequence r) (quality_fq r)) ! 2 = ''+''
       \<and> split_on LF (fq_text ?nm (comment r) (''|FM=1|ND=0'' @ ?fa @ pv)
                    (sequence r) (quality_fq r)) ! 3 = quality_fq r
       \<and> split_on LF (fq_text ?nm (comment r) (''|FM=1|ND=0'' @ ?fa @ pv)
                    (sequence r) (quality_fq r)) ! 4 = []"
    if "LF \<notin> set ?nm" "LF \<notin> set (comment r)" "LF \<notin> set (sequence r)"
      "LF \<notin> set (quality_fq r)" "LF \<notin> set pv" for pv
    unfolding split_fq_text [OF that(1) that(2) t [OF that(5)] that(3) that(4)]
    by simp
  show ?thesis
    unfolding a b using s [OF _ _ _ _ LF_PV(1)] s [OF _ _ _ _ LF_PV(2)]
    by auto
qed

lemma fa4: "PyArr2FAString (replicate (max 1 (length ''ACGN'')) 1) = ''|FA=1,1,1,1''"
  by code_simp

lemma pv4: "PyArr2PVString (getQualArray read_ACGN) = ''|PV=40,40,40,40''"
  by code_simp

theorem singleton_family_verbatim_witness:
  "LF \<notin> set (name read_ACGN) \<and> LF \<notin> set (comment read_ACGN)
   \<and> LF \<notin> set (sequence read_ACGN) \<and> LF \<notin> set (quality_fq read_ACGN)
   \<and> cFastFisherFlattening (int_numerics (\<lambda>n x. n - x)) (\<lambda>a n l. []) [read_ACGN] None
       = Inr (''@r1 |BS=ACGT|FM=1|ND=0|FA=1,1,1,1|PV=40,40,40,40'' @ [LF] @ ''ACGN'' @ [LF]
              @ ''+'' @ [LF] @ ''IIII'' @ [LF])
   \<and> split_on LF (''@r1 |BS=ACGT|FM=1|ND=0|FA=1,1,1,1|PV=40,40,40,40'' @ [LF] @ ''ACGN'' @ [LF]
              @ ''+'' @ [LF] @ ''IIII'' @ [LF]) ! 1 = ''ACGN''
   \<and> split_on LF (''@r1 |BS=ACGT|FM=1|ND=0|FA=1,1,1,1|PV=40,40,40,40'' @ [LF] @ ''ACGN'' @ [LF]
              @ ''+'' @ [LF] @ ''IIII'' @ [LF]) ! 3 = ''IIII''"
proof -
  have n: "LF \<notin> set (case None of None \<Rightarrow> name read_ACGN | Some n \<Rightarrow> n)"
    "LF \<notin> set (comment read_ACGN)" "LF \<notin> set (sequence read_ACGN)"
    "LF \<notin> set (quality_fq read_ACGN)"
    by (simp_all add: read_ACGN_def LF_def)
  have s: "sequence read_ACGN = ''ACGN''" "quality_fq read_ACGN = ''IIII''"
    "name read_ACGN = ''r1''" "comment read_ACGN = ''|BS=ACGT''"
    by (simp_all add: read_ACGN_def)
  note t = singleton_family_verbatim [of "int_numerics (\<lambda>n x. n - x)" "\<lambda>a n l. []" read_ACGN None]
  have e: "cFastFisherFlattening (int_numerics (\<lambda>n x. n - x)) (\<lambda>a n l. []) [read_ACGN] None
       = Inr (''@r1 |BS=ACGT|FM=1|ND=0|FA=1,1,1,1|PV=40,40,40,40'' @ [LF] @ ''ACGN'' @ [LF]
              @ ''+'' @ [LF] @ ''IIII'' @ [LF])"
    using t unfolding s fa4 pv4 by (simp add: fq_text_def)
  show ?thesis
    using t n e by (simp add: s)
qed

lemma map_const_replicate: "map (\<lambda>q. c) xs = replicate (length xs) c"
  by (induction xs) simp_all

lemma fast_phredQuals_discordant:
  assumes "family_discordant FA nRecs minFAFrac minMaxFA"
  shows "fast_phredQuals amax FA nRecs minPVFrac minFAFrac minMaxFA = replicate (length amax) 0"
  using assms by (simp add: fast_phredQuals_def Let_def map_const_replicate)

lemma length_fast_amax: "length (fast_amax seqArray quals rLen) = rLen"
  by (simp add: fast_amax_def)

lemma PH2CHR_TRANS_0: "PH2CHR_TRANS 0 = CHR ''!''"
  by (simp add: PH2CHR_TRANS_def char_of_def)

lemma cQualArr2QualStr_zeros:
  "cQualArr2QualStr (replicate n 0) = Inr (replicate n (CHR ''!''))"
  by (simp add: cQualArr2QualStr_def list_ex_iff PH2CHR_TRANS_0)

lemma np_array2D_same_length:
  assumes "list_all (\<lambda>r. length r = n) rows" and "rows \<noteq> []"
  shows "np_array2D rows = Inr rows"
proof -
  have "length (hd rows) = n"
    using assms by (cases rows) simp_all
  then show ?thesis
    using assms(1) by (simp add: np_array2D_def list_all_iff)
qed

lemma fast_compare_discordant_shaped:
  assumes "2 \<le> length R"
    and "list_all (\<lambda>rec. length (sequence rec) = rLen \<and> length (quality_fq rec) = rLen) R"
    and "0 < rLen"
    and "family_discordant
           (fast_FA R (fast_newSeq (map (\<lambda>r. cs_to_ia (sequence r)) R)
                         (map (\<lambda>r. cs_to_ph (quality_fq r)) R) rLen) rLen)
           (length R) minFAFrac minMaxFA"
  shows "fast_phredQuals
           (fast_amax (map (\<lambda>r. cs_to_ia (sequence r)) R)
              (map (\<lambda>r. cs_to_ph (quality_fq r)) R) rLen)
           (fast_FA R (fast_newSeq (map (\<lambda>r. cs_to_ia (sequence r)) R)
                         (map (\<lambda>r. cs_to_ph (quality_fq r)) R) rLen) rLen)
           (length R) minPVFrac minFAFrac minMaxFA = replicate rLen 0
       \<and> cCompareFqRecsFast R nm minPVFrac minFAFrac minMaxFA
         = Inr (fq_text (case nm of None \<Rightarrow> name (hd R) | Some n \<Rightarrow> n) (comment (hd R))
                  (''|FM='' @ str_int (int (length R)) @ ''|ND=''
                   @ str_int (int (length R) * int rLen
                        - sum_list (fast_FA R (fast_newSeq (map (\<lambda>r. cs_to_ia (sequence r)) R)
                             (map (\<lambda>r. cs_to_ph (quality_fq r)) R) rLen) rLen))
                   @ cQualArr2FAString
                       (fast_FA R (fast_newSeq (map (\<lambda>r. cs_to_ia (sequence r)) R)
                             (map (\<lambda>r. cs_to_ph (quality_fq r)) R) rLen) rLen)
                   @ cQualArr2PVString (replicate rLen 0))
                  (fast_newSeq (map (\<lambda>r. cs_to_ia (sequence r)) R)
                             (map (\<lambda>r. cs_to_ph (quality_fq r)) R) rLen)
                  (replicate rLen (CHR ''!'')))"
proof -
  let ?S = "map (\<lambda>r. cs_to_ia (sequence r)) R"
  let ?Q = "map (\<lambda>r. cs_to_ph (quality_fq r)) R"
  let ?FA = "fast_FA R (fast_newSeq ?S ?Q rLen) rLen"
  obtain rec rest where R: "R = rec # rest"
    using assms(1) by (cases R) auto
  have n1: "length R \<noteq> 1" using assms(1) by simp
  have l: "length (sequence rec) = rLen" "length (quality_fq rec) = rLen"
    using assms(2) R by simp_all
  have S: "np_array2D ?S = Inr ?S"
    by (rule np_array2D_same_length [where n = rLen])
       (use assms(2) R in \<open>simp_all add: list_all_iff cs_to_ia_def\<close>)
  have Q: "np_array2D ?Q = Inr ?Q"
    by (rule np_array2D_same_length [where n = rLen])
       (use assms(2) R in \<open>simp_all add: list_all_iff cs_to_ph_def\<close>)
  have hq: "length (hd ?Q) = rLen"
    using l R by (simp add: cs_to_ph_def)
  have z: "fast_phredQuals (fast_amax ?S ?Q rLen) ?FA (length R) minPVFrac minFAFrac minMaxFA
             = replicate rLen 0"
    using fast_phredQuals_discordant [OF assms(4)] by (simp add: length_fast_amax)
  have c: "cCompareFqRecsFast R nm minPVFrac minFAFrac minMaxFA
         = Inr (fq_text (case nm of None \<Rightarrow> name (hd R) | Some n \<Rightarrow> n) (comment (hd R))
                  (''|FM='' @ str_int (int (length R)) @ ''|ND=''
                   @ str_int (int (length R) * int rLen - sum_list ?FA)
                   @ cQualArr2FAString ?FA
                   @ cQualArr2PVString (replicate rLen 0))
                  (fast_newSeq ?S ?Q rLen)
                  (replicate rLen (CHR ''!'')))"
    using n1 assms(3) l hq S Q z cQualArr2QualStr_zeros [of rLen]
    unfolding cCompareFqRecsFast_def R
    by (cases nm) (simp_all add: Let_def)
  show ?thesis using z c by simp
qed

lemma np_array2D_Inr:
  assumes "np_array2D rows = Inr A"
  shows "A = rows \<and> list_all (\<lambda>r. length r = length (hd rows)) rows"
  using assms by (auto simp: np_array2D_def split: if_splits)

lemma cCompareFqRecsFast_Inr_shape:
  assumes "2 \<le> length R"
    and "cCompareFqRecsFast R nm minPVFrac minFAFrac minMaxFA = Inr out"
  shows "list_all (\<lambda>rec. length (sequence rec) = length (sequence (hd R))
                        \<and> length (quality_fq rec) = length (sequence (hd R))) R
       \<and> 0 < length (sequence (hd R))"
proof -
  obtain rec rest where R: "R = rec # rest"
    using assms(1) by (cases R) auto
  have n1: "length R \<noteq> 1" using assms(1) by simp
  let ?S = "map (\<lambda>r. cs_to_ia (sequence r)) R"
  let ?Q = "map (\<lambda>r. cs_to_ph (quality_fq r)) R"
  from assms(2) n1 obtain A B where
    A: "np_array2D ?S = Inr A" and B: "np_array2D ?Q = Inr B"
    and h: "length (hd B) = length (sequence rec)" and z: "length (sequence rec) \<noteq> 0"
    unfolding cCompareFqRecsFast_def R
    by (auto simp: Let_def split: sum.splits if_splits)
  from np_array2D_Inr [OF A] have
    s: "list_all (\<lambda>r. length r = length (hd ?S)) ?S" by simp
  from np_array2D_Inr [OF B] have
    q: "B = ?Q" "list_all (\<lambda>r. length r = length (hd ?Q)) ?Q" by simp_all
  have hs: "length (hd ?S) = length (sequence rec)" by (simp add: R cs_to_ia_def)
  have hq: "length (hd ?Q) = length (sequence rec)" using h q(1) by simp
  have "list_all (\<lambda>r. length (sequence r) = length (sequence rec)) R"
    using s unfolding hs by (simp add: list_all_iff cs_to_ia_def)
  moreover have "list_all (\<lambda>r. length (quality_fq r) = length (sequence rec)) R"
    using q(2) unfolding hq by (simp add: list_all_iff cs_to_ph_def)
  ultimately show ?thesis using z by (simp add: R list_all_iff)
qed

text \<open>
  Claim C9. For a family of two or more records whose least agreement count is below
  \<open>minFAFrac * nRecs\<close> or whose greatest agreement count is below
  \<open>minMaxFA * nRecs\<close> (0.2 and 0.9 by default; the \<open>double\<close>s are modelled as real
  numbers): the quality array is 0 at every position, and whatever the fast comparison
  returns is the record text whose PV tag lists \<open>rLen\<close> zeros and whose quality line is
  \<open>rLen\<close> times the character \<open>!\<close> of Phred 0. It does return when all records have
  read length \<open>rLen > 0\<close> and quality strings of that length.
\<close>

theorem fast_compare_nullifies_discordant_family:
  assumes "2 \<le> length R"
    and "rLen = length (sequence (hd R))"
    and "family_discordant
           (fast_FA R (fast_newSeq (map (\<lambda>r. cs_to_ia (sequence r)) R)
                         (map (\<lambda>r. cs_to_ph (quality_fq r)) R) rLen) rLen)
           (length R) minFAFrac minMaxFA"
  shows "fast_phredQuals
           (fast_amax (map (\<lambda>r. cs_to_ia (sequence r)) R)
              (map (\<lambda>r. cs_to_ph (quality_fq r)) R) rLen)
           (fast_FA R (fast_newSeq (map (\<lambda>r. cs_to_ia (sequence r)) R)
                         (map (\<lambda>r. cs_to_ph (quality_fq r)) R) rLen) rLen)
           (length R) minPVFrac minFAFrac minMaxFA = replicate rLen 0
       \<and> (\<forall>out. cCompareFqRecsFast R nm minPVFrac minFAFrac minMaxFA = Inr out \<longrightarrow>
            out = fq_text (case nm of None \<Rightarrow> name (hd R) | Some n \<Rightarrow> n) (comment (hd R))
                  (''|FM='' @ str_int (int (length R)) @ ''|ND=''
                   @ str_int (int (length R) * int rLen
                        - sum_list (fast_FA R (fast_newSeq (map (\<lambda>r. cs_to_ia (sequence r)) R)
                             (map (\<lambda>r. cs_to_ph (quality_fq r)) R) rLen) rLen))
                   @ cQualArr2FAString
                       (fast_FA R (fast_newSeq (map (\<lambda>r. cs_to_ia (sequence r)) R)
                             (map (\<lambda>r. cs_to_ph (quality_fq r)) R) rLen) rLen)
                   @ cQualArr2PVString (replicate rLen 0))
                  (fast_newSeq (map (\<lambda>r. cs_to_ia (sequence r)) R)
                             (map (\<lambda>r. cs_to_ph (quality_fq r)) R) rLen)
                  (replicate rLen (CHR ''!'')))
       \<and> (list_all (\<lambda>rec. length (sequence rec) = rLen \<and> length (quality_fq rec) = rLen) R
            \<and> 0 < rLen
          \<longrightarrow> (\<exists>out. cCompareFqRecsFast R nm minPVFrac minFAFrac minMaxFA = Inr out))"
proof (intro conjI allI impI)
  show "fast_phredQuals
           (fast_amax (map (\<lambda>r. cs_to_ia (sequence r)) R)
              (map (\<lambda>r. cs_to_ph (quality_fq r)) R) rLen)
           (fast_FA R (fast_newSeq (map (\<lambda>r. cs_to_ia (sequence r)) R)
                         (map (\<lambda>r. cs_to_ph (quality_fq r)) R) rLen) rLen)
           (length R) minPVFrac minFAFrac minMaxFA = replicate rLen 0"
    using fast_phredQuals_discordant [OF assms(3)] by (simp add: length_fast_amax)
next
  fix out
  assume r: "cCompareFqRecsFast R nm minPVFrac minFAFrac minMaxFA = Inr out"
  from cCompareFqRecsFast_Inr_shape [OF assms(1) r] have
    sh: "list_all (\<lambda>rec. length (sequence rec) = rLen \<and> length (quality_fq rec) = rLen) R"
    and pos: "0 < rLen"
    unfolding assms(2) by simp_all
  from fast_compare_discordant_shaped [OF assms(1) sh pos assms(3), where nm = nm and minPVFrac = minPVFrac] r
  show "out = fq_text (case nm of None \<Rightarrow> name (hd R) | Some n \<Rightarrow> n) (comment (hd R))
                  (''|FM='' @ str_int (int (length R)) @ ''|ND=''
                   @ str_int (int (length R) * int rLen
                        - sum_list (fast_FA R (fast_newSeq (map (\<lambda>r. cs_to_ia (sequence r)) R)
                             (map (\<lambda>r. cs_to_ph (quality_fq r)) R) rLen) rLen))
                   @ cQualArr2FAString
                       (fast_FA R (fast_newSeq (map (\<lambda>r. cs_to_ia (sequence r)) R)
                             (map (\<lambda>r. cs_to_ph (quality_fq r)) R) rLen) rLen)
                   @ cQualArr2PVString (replicate rLen 0))
                  (fast_newSeq (map (\<lambda>r. cs_to_ia (sequence r)) R)
                             (map (\<lambda>r. cs_to_ph (quality_fq r)) R) rLen)
                  (replicate rLen (CHR ''!''))"
    by simp
next
  assume "list_all (\<lambda>rec. length (sequence rec) = rLen \<and> length (quality_fq rec) = rLen) R
            \<and> 0 < rLen"
  then have sh: "list_all (\<lambda>rec. length (sequence rec) = rLen \<and> length (quality_fq rec) = rLen) R"
    and pos: "0 < rLen" by simp_all
  from fast_compare_discordant_shaped [OF assms(1) sh pos assms(3), where nm = nm and minPVFrac = minPVFrac]
  show "\<exists>out. cCompareFqRecsFast R nm minPVFrac minFAFrac minMaxFA = Inr out"
    by blast
qed

lemma newSeq_A_C:
  "fast_newSeq (map (\<lambda>r. cs_to_ia (sequence r)) [read_A, read_C])
      (map (\<lambda>r. cs_to_ph (quality_fq r)) [read_A, read_C]) 1 = ''A''"
  by code_simp

lemma FA_A_C: "fast_FA [read_A, read_C] ''A'' 1 = [1]"
  by code_simp

lemma tags_A_C: "str_int (int (length [read_A, read_C])) = ''2''"
  "str_int (int (length [read_A, read_C]) * int 1 - sum_list [1]) = ''1''"
  "cQualArr2FAString [1] = ''|FA=1''" "cQualArr2PVString (replicate 1 0) = ''|PV=0''"
  by code_simp+

theorem fast_compare_nullifies_discordant_family_witness:
  "2 \<le> length [read_A, read_C]
   \<and> 1 = length (sequence (hd [read_A, read_C]))
   \<and> list_all (\<lambda>rec. length (sequence rec) = 1 \<and> length (quality_fq rec) = 1) [read_A, read_C]
   \<and> family_discordant [1] 2 (2 / 10) (9 / 10)
   \<and> pCompareFqRecsFast [read_A, read_C] None
       = Inr (''@r1 |BS=ACGT|FM=2|ND=1|FA=1|PV=0'' @ [LF] @ ''A'' @ [LF] @ ''+'' @ [LF]
              @ [CHR 0x21] @ [LF])"
proof -
  have h1: "2 \<le> length [read_A, read_C]" by simp
  have h2: "list_all (\<lambda>rec. length (sequence rec) = 1 \<and> length (quality_fq rec) = 1)
              [read_A, read_C]"
    by (simp add: read_A_def read_C_def)
  have h3: "1 = length (sequence (hd [read_A, read_C]))" by (simp add: read_A_def)
  have d: "family_discordant [1] 2 (2 / 10) (9 / 10)"
    by (simp add: family_discordant_def)
  have h4: "family_discordant
           (fast_FA [read_A, read_C] (fast_newSeq (map (\<lambda>r. cs_to_ia (sequence r)) [read_A, read_C])
                         (map (\<lambda>r. cs_to_ph (quality_fq r)) [read_A, read_C]) 1) 1)
           (length [read_A, read_C]) (2 / 10) (9 / 10)"
    unfolding newSeq_A_C FA_A_C using d by (simp add: numeral_2_eq_2)
  have s: "name (hd [read_A, read_C]) = ''r1''" "comment (hd [read_A, read_C]) = ''|BS=ACGT''"
    by (simp_all add: read_A_def)
  note t = fast_compare_nullifies_discordant_family [OF h1 h3 h4,
      where nm = None and minPVFrac = "1 / 10"]
  from t h2 obtain out where
    o: "cCompareFqRecsFast [read_A, read_C] None (1 / 10) (2 / 10) (9 / 10) = Inr out"
    by auto
  with t have "out = fq_text (case None of None \<Rightarrow> name (hd [read_A, read_C]) | Some n \<Rightarrow> n)
                  (comment (hd [read_A, read_C]))
                  (''|FM='' @ str_int (int (length [read_A, read_C])) @ ''|ND=''
                   @ str_int (int (length [read_A, read_C]) * int 1
                        - sum_list (fast_FA [read_A, read_C]
                             (fast_newSeq (map (\<lambda>r. cs_to_ia (sequence r)) [read_A, read_C])
                             (map (\<lambda>r. cs_to_ph (quality_fq r)) [read_A, read_C]) 1) 1))
                   @ cQualArr2FAString
                       (fast_FA [read_A, read_C]
                          (fast_newSeq (map (\<lambda>r. cs_to_ia (sequence r)) [read_A, read_C])
                             (map (\<lambda>r. cs_to_ph (quality_fq r)) [read_A, read_C]) 1) 1)
                   @ cQualArr2PVString (replicate 1 0))
                  (fast_newSeq (map (\<lambda>r. cs_to_ia (sequence r)) [read_A, read_C])
                             (map (\<lambda>r. cs_to_ph (quality_fq r)) [read_A, read_C]) 1)
                  (replicate 1 (CHR ''!''))"
    by blast
  then have "out = ''@r1 |BS=ACGT|FM=2|ND=1|FA=1|PV=0'' @ [LF] @ ''A'' @ [LF] @ ''+'' @ [LF]
              @ [CHR 0x21] @ [LF]"
    unfolding newSeq_A_C FA_A_C tags_A_C s by (simp add: fq_text_def)
  then have e: "pCompareFqRecsFast [read_A, read_C] None
       = Inr (''@r1 |BS=ACGT|FM=2|ND=1|FA=1|PV=0'' @ [LF] @ ''A'' @ [LF] @ ''+'' @ [LF]
              @ [CHR 0x21] @ [LF])"
    using o by (simp add: pCompareFqRecsFast_def)
  show ?thesis using h1 h2 h3 d e by simp
qed

section \<open>Properties of the mate-pair merger\<close>

lemma overlap_walk_deletion_in_L1:
  assumes "count < length L2" and "operation pos1 = 68" and "operation (L2 ! count) \<noteq> 68"
  shows "overlap_walk MAQ MDQ (pos1 # rest) L2 count lst
           = overlap_walk MAQ MDQ rest L2 count (lst @ [pos1])"
  using assms by (simp add: Let_def)

lemma overlap_walk_deletion_in_L2:
  assumes "count < length L2" and "operation (L2 ! count) = 68" and "operation pos1 \<noteq> 68"
  shows "overlap_walk MAQ MDQ (pos1 # rest) L2 count lst
           = overlap_walk MAQ MDQ rest L2 (count + 1) (lst @ [L2 ! count])"
  using assms by (simp add: Let_def)

lemma overlap_walk_extends:
  assumes "overlap_walk MAQ MDQ xs L2 c lst = Inr (out, c')"
  shows "\<exists>mid. out = lst @ mid \<and> length mid = length xs \<and> c \<le> c'"
  using assms
proof (induction xs arbitrary: c lst)
  case Nil
  then show ?case by simp
next
  case (Cons pos1 rest)
  from Cons.prems have lt: "c < length L2"
    by (simp split: if_splits)
  from Cons.prems lt obtain c1 p where
    step: "overlap_walk MAQ MDQ rest L2 c1 (lst @ [p]) = Inr (out, c')" and c1: "c \<le> c1"
    by (auto simp: Let_def split: if_splits)
  from Cons.IH [OF step] obtain mid where
    "out = (lst @ [p]) @ mid" "length mid = length rest" "c1 \<le> c'" by blast
  then have "out = lst @ (p # mid) \<and> length (p # mid) = length (pos1 # rest) \<and> c \<le> c'"
    using c1 by simp
  then show ?case by blast
qed

lemma cMergeLayoutsToList_frame:
  assumes "cGetRefPosForFirstPos L1 \<le> cGetRefPosForFirstPos L2"
    and "cMergeLayoutsToList MAQ MDQ L1 L2 = Inr out"
  shows "\<exists>mid count.
           out = take (nat (cGetRefPosForFirstPos L2 - cGetRefPosForFirstPos L1)) (positions L1)
                 @ mid @ drop count (positions L2)
         \<and> length mid
             = length (positions L1) - nat (cGetRefPosForFirstPos L2 - cGetRefPosForFirstPos L1)"
proof -
  let ?off = "cGetRefPosForFirstPos L2 - cGetRefPosForFirstPos L1"
  have nn: "0 \<le> ?off" using assms(1) by simp
  have pre: "py_slice_to (positions L1) ?off = take (nat ?off) (positions L1)"
    and suf: "py_slice_from (positions L1) ?off = drop (nat ?off) (positions L1)"
    using nn by (simp_all add: py_slice_to_def py_slice_from_def)
  from assms obtain lst count where
    w: "overlap_walk MAQ MDQ (drop (nat ?off) (positions L1)) (positions L2) 0
          (take (nat ?off) (positions L1)) = Inr (lst, count)"
    and out: "out = lst @ drop count (positions L2)"
    by (auto simp: cMergeLayoutsToList_def Let_def pre suf split: sum.splits)
  from overlap_walk_extends [OF w] obtain mid where
    "lst = take (nat ?off) (positions L1) @ mid"
    "length mid = length (drop (nat ?off) (positions L1))" by blast
  then show ?thesis using out by auto
qed

lemma first_ref_examples:
  "cGetRefPosForFirstPos (layout_of [M100A, M101C, M102G]) = 100"
  "cGetRefPosForFirstPos (layout_of [M100A, D101, M102G]) = 100"
  "cGetRefPosForFirstPos (layout_of [M100A, M101C]) = 100"
  "cGetRefPosForFirstPos (layout_of [M101C, M102G]) = 101"
  by (simp_all add: cGetRefPosForFirstPos_def layout_of_def M100A_def M101C_def D101_def
        M102G_def LayoutPos_init_def)

text \<open>
  Claim C4. The claim says that a deletion on either side advances only the cursor of its
  own side, so that no other position is lost. For a deletion in the first layout the
  loop does so (\<open>overlap_walk_deletion_in_L1\<close>). For a deletion in the second layout the
  \<open>for\<close> loop still moves on to the next position of the first layout
  (\<open>overlap_walk_deletion_in_L2\<close>), and the current one is lost. In the first merge
  below, of the matches A, C, G at 100 to 102 with a layout that deletes 101, the match
  with base C of the first layout is absent from the result; with the two layouts
  exchanged every position is kept.
\<close>

theorem overlap_walk_drops_position_opposite_deletion:
  "cMergeLayoutsToList MAQ MDQ (layout_of [M100A, M101C, M102G]) (layout_of [M100A, D101, M102G])
     = Inr [cMergePositions MAQ MDQ M100A M100A, D101, cMergePositions MAQ MDQ M102G M102G]
   \<and> base M101C = 67
   \<and> list_all (\<lambda>p. base p \<noteq> 67)
         [cMergePositions MAQ MDQ M100A M100A, D101, cMergePositions MAQ MDQ M102G M102G]
   \<and> cMergeLayoutsToList MAQ MDQ (layout_of [M100A, D101, M102G]) (layout_of [M100A, M101C, M102G])
     = Inr [cMergePositions MAQ MDQ M100A M100A, D101, cMergePositions MAQ MDQ M102G M101C,
            M102G]"
proof -
  have ops: "operation M100A = 77" "operation M101C = 77" "operation M102G = 77"
    "operation D101 = 68" "base M100A = 65" "base M101C = 67" "base M102G = 71" "base D101 = 68"
    by (simp_all add: M100A_def M101C_def M102G_def D101_def LayoutPos_init_def)
  have a: "cMergeLayoutsToList MAQ MDQ (layout_of [M100A, M101C, M102G])
             (layout_of [M100A, D101, M102G])
     = Inr [cMergePositions MAQ MDQ M100A M100A, D101, cMergePositions MAQ MDQ M102G M102G]"
    by (simp add: cMergeLayoutsToList_def first_ref_examples Let_def py_slice_to_def
          py_slice_from_def)
       (simp add: layout_of_def ops)
  have b: "cMergeLayoutsToList MAQ MDQ (layout_of [M100A, D101, M102G])
             (layout_of [M100A, M101C, M102G])
     = Inr [cMergePositions MAQ MDQ M100A M100A, D101, cMergePositions MAQ MDQ M102G M101C,
            M102G]"
    by (simp add: cMergeLayoutsToList_def first_ref_examples Let_def py_slice_to_def
          py_slice_from_def)
       (simp add: layout_of_def ops)
  have c: "base (cMergePositions MAQ MDQ M100A M100A) = 65"
    "base (cMergePositions MAQ MDQ M102G M102G) = 71"
    by (simp_all add: cMergePositions_def LayoutPos_init_def ops)
  show ?thesis using a b c ops by simp
qed

text \<open>
  Claim C5. When the first layout starts at or before the second, the result is the
  first layout's positions before the overlap, then the walk's positions, then the rest
  of the second layout (\<open>cMergeLayoutsToList_frame\<close>). When the first layout starts
  after the second, the exchange of the two layouts assigns the second to the first and
  never the first to the second: the second layout is merged with itself and nothing of
  the first layout reaches the result. Below, the position at 100 of the left anchor is
  returned merged with itself and not as it was, and the position at 102 of the
  right-side layout is missing.
\<close>

theorem merge_loses_later_starting_first_layout:
  "cMergeLayoutsToList MAQ MDQ (layout_of [M101C, M102G]) (layout_of [M100A, M101C])
     = Inr [cMergePositions MAQ MDQ M100A M100A, cMergePositions MAQ MDQ M101C M101C]
   \<and> cMergePositions MAQ MDQ M100A M100A \<noteq> M100A
   \<and> M102G \<notin> set [cMergePositions MAQ MDQ M100A M100A, cMergePositions MAQ MDQ M101C M101C]"
proof -
  have ops: "operation M100A = 77" "operation M101C = 77" 
    "base M100A = 65" "base M101C = 67" "base M102G = 71"
    by (simp_all add: M100A_def M101C_def M102G_def LayoutPos_init_def)
  have a: "cMergeLayoutsToList MAQ MDQ (layout_of [M101C, M102G]) (layout_of [M100A, M101C])
     = Inr [cMergePositions MAQ MDQ M100A M100A, cMergePositions MAQ MDQ M101C M101C]"
    by (simp add: cMergeLayoutsToList_def first_ref_examples Let_def py_slice_to_def py_slice_from_def)
       (simp add: layout_of_def ops)
  have m: "merged (cMergePositions MAQ MDQ M100A M100A)" "\<not> merged M100A"
    by (simp_all add: cMergePositions_def LayoutPos_init_def M100A_def)
  have b: "base (cMergePositions MAQ MDQ M100A M100A) = 65"
    "base (cMergePositions MAQ MDQ M101C M101C) = 67"
    by (simp_all add: cMergePositions_def LayoutPos_init_def ops)
  have "cMergePositions MAQ MDQ M100A M100A \<noteq> M100A"
    using m by auto
  moreover have "M102G \<notin> set [cMergePositions MAQ MDQ M100A M100A, cMergePositions MAQ MDQ M101C M101C]"
    using b ops by auto
  ultimately show ?thesis using a by simp
qed

section \<open>Properties of the CIGAR expansion\<close>

lemma collect_map_Inr:
  assumes "\<And>x. x \<in> set xs \<Longrightarrow> f x = Inr (g x)"
  shows "collect (map f xs) = Inr (map g xs)"
  using assms by (induction xs) simp_all

lemma read_pos_Inr:
  assumes "x0 < length sq" and "x0 < length quals" and "x0 < length agrees"
  shows "read_pos sq quals agrees p opn x0
           = Inr (LayoutPos_init p (int x0) (of_char (sq ! x0)) opn (quals ! x0) (agrees ! x0) False 1)"
  using assms by (simp add: read_pos_def py_index_def)

lemma operation_init [simp]: "operation (LayoutPos_init p rp b opn q a m ma) = opn"
  by (simp add: LayoutPos_init_def)

lemma match_block:
  assumes "q + len \<le> length sq" and "q + len \<le> length quals" and "q + len \<le> length agrees"
  shows "\<exists>ps. collect (map (layout_of_pair c sq quals agrees)
                    (map (\<lambda>k. (Some (q + k), Some (r + int k))) [0 ..< len])) = Inr ps
              \<and> map operation ps = replicate len 77"
proof -
  let ?g = "\<lambda>pr. case pr of (Some x0, Some x1) \<Rightarrow>
              LayoutPos_init x1 (int x0) (of_char (sq ! x0)) 77 (quals ! x0) (agrees ! x0) False 1"
  let ?blk = "map (\<lambda>k. (Some (q + k), Some (r + int k))) [0 ..< len]"
  have "collect (map (layout_of_pair c sq quals agrees) ?blk) = Inr (map ?g ?blk)"
  proof (rule collect_map_Inr)
    fix pr assume "pr \<in> set ?blk"
    then obtain k where k: "k < len" and pr: "pr = (Some (q + k), Some (r + int k))" by auto
    show "layout_of_pair c sq quals agrees pr = Inr (?g pr)"
      using k assms by (simp add: pr layout_of_pair_def read_pos_Inr)
  qed
  moreover have "map operation (map ?g ?blk) = replicate len 77"
    by (simp add: o_def map_replicate_const)
  ultimately show ?thesis by blast
qed

lemma query_block:
  assumes "q + len \<le> length sq" and "q + len \<le> length quals" and "q + len \<le> length agrees"
  shows "\<exists>ps. collect (map (layout_of_pair c sq quals agrees)
                    (map (\<lambda>k. (Some (q + k), None)) [0 ..< len])) = Inr ps
              \<and> map operation ps = replicate len c"
proof -
  let ?g = "\<lambda>pr. case pr of (Some x0, x1) \<Rightarrow>
              LayoutPos_init (- 1) (int x0) (of_char (sq ! x0)) c (quals ! x0) (agrees ! x0) False 1"
  let ?blk = "map (\<lambda>k. (Some (q + k), None :: int option)) [0 ..< len]"
  have "collect (map (layout_of_pair c sq quals agrees) ?blk) = Inr (map ?g ?blk)"
  proof (rule collect_map_Inr)
    fix pr assume "pr \<in> set ?blk"
    then obtain k where k: "k < len" and pr: "pr = (Some (q + k), None)" by auto
    show "layout_of_pair c sq quals agrees pr = Inr (?g pr)"
      using k assms by (simp add: pr layout_of_pair_def read_pos_Inr)
  qed
  moreover have "map operation (map ?g ?blk) = replicate len c"
    by (simp add: o_def map_replicate_const)
  ultimately show ?thesis by blast
qed

lemma deletion_block:
  assumes "c \<noteq> 83"
  shows "\<exists>ps. collect (map (layout_of_pair c sq quals agrees)
                    (map (\<lambda>k. (None, Some (r + int k))) [0 ..< len])) = Inr ps
              \<and> map operation ps = replicate len 68"
proof -
  let ?g = "\<lambda>pr. case pr of (x0, Some x1) \<Rightarrow>
              LayoutPos_init x1 (- 1) 68 68 (- 1) (- 1) False 1"
  let ?blk = "map (\<lambda>k. (None :: nat option, Some (r + int k))) [0 ..< len]"
  have "collect (map (layout_of_pair c sq quals agrees) ?blk) = Inr (map ?g ?blk)"
  proof (rule collect_map_Inr)
    fix pr assume "pr \<in> set ?blk"
    then obtain k where k: "k < len" and pr: "pr = (None, Some (r + int k))" by auto
    show "layout_of_pair c sq quals agrees pr = Inr (?g pr)"
      using assms by (simp add: pr layout_of_pair_def)
  qed
  moreover have "map operation (map ?g ?blk) = replicate len 68"
    by (simp add: o_def map_replicate_const)
  ultimately show ?thesis by blast
qed

lemma CigarChar_values:
  "CigarOpToCigarChar 0 = 77" "CigarOpToCigarChar 1 = 73"
  "CigarOpToCigarChar 2 = 68" "CigarOpToCigarChar 4 = 83"
  by (simp_all add: CigarOpToCigarChar_def)

lemma take_block: "length pre = offset \<Longrightarrow> length blk = len \<Longrightarrow>
  take len (drop offset (pre @ blk @ post)) = blk"
  by simp

lemma makeLayoutTuple_loop_operations:
  assumes "list_all layout_op cg"
    and "aligned_pairs rec = pre @ pysam_aligned_pairs q r cg"
    and "length pre = offset"
    and "q + query_length cg \<le> length (seq rec)"
    and "q + query_length cg \<le> length (quals_of rec)"
    and "q + query_length cg \<le> length agrees"
    and "agrees_of rec = Inr agrees"
  shows "\<exists>ps fm'. makeLayoutTuple_loop rec cg offset fm acc = Inr (acc @ ps, fm')
           \<and> map operation ps
               = concat (map (\<lambda>pair. replicate (snd pair) (CigarOpToCigarChar (fst pair))) cg)"
  using assms
proof (induction cg arbitrary: pre q r offset fm acc)
  case Nil
  then show ?case by simp
next
  case (Cons pair rest)
  let ?quals = "quals_of rec"
  let ?agrees = agrees
  let ?c = "CigarOpToCigarChar (fst pair)"
  have w: "layout_op pair" and wr: "list_all layout_op rest" using Cons.prems(1) by simp_all
  obtain blk q' r' where
    ap: "pysam_aligned_pairs q r (pair # rest) = blk @ pysam_aligned_pairs q' r' rest"
    and lb: "length blk = snd pair"
    and q': "q' + query_length rest = q + query_length (pair # rest)"
    and blk: "\<exists>ps. collect (map (layout_of_pair ?c (seq rec) ?quals ?agrees) blk) = Inr ps
                \<and> map operation ps = replicate (snd pair) ?c"
  proof -
    consider "fst pair = 0" | "fst pair = 1 \<or> fst pair = 4" | "fst pair = 2"
      using w by (auto simp: layout_op_def)
    then show ?thesis
    proof cases
      case 1
      have b: "q + snd pair \<le> length (seq rec)" "q + snd pair \<le> length ?quals"
        "q + snd pair \<le> length ?agrees"
        using Cons.prems(4,5,6) 1 by simp_all
      show ?thesis
        by (rule that [of "map (\<lambda>k. (Some (q + k), Some (r + int k))) [0 ..< snd pair]"
              "q + snd pair" "r + int (snd pair)"])
           (use 1 match_block [OF b, of ?c r] in \<open>simp_all add: CigarChar_values\<close>)
    next
      case 2
      have b: "q + snd pair \<le> length (seq rec)" "q + snd pair \<le> length ?quals"
        "q + snd pair \<le> length ?agrees"
        using Cons.prems(4,5,6) 2 by auto
      show ?thesis
        by (rule that [of "map (\<lambda>k. (Some (q + k), None)) [0 ..< snd pair]"
              "q + snd pair" r])
           (use 2 query_block [OF b, of ?c] in auto)
    next
      case 3
      have c: "?c \<noteq> 83" using 3 by (simp add: CigarChar_values)
      show ?thesis
        by (rule that [of "map (\<lambda>k. (None, Some (r + int k))) [0 ..< snd pair]"
              q "r + int (snd pair)"])
           (use 3 deletion_block [OF c, of "seq rec" ?quals ?agrees r "snd pair"] in
             \<open>simp_all add: CigarChar_values\<close>)
    qed
  qed
  from blk obtain ps0 where
    ps0: "collect (map (layout_of_pair ?c (seq rec) ?quals ?agrees) blk) = Inr ps0"
    and ops0: "map operation ps0 = replicate (snd pair) ?c" by blast
  have sl: "take (snd pair) (drop offset (aligned_pairs rec)) = blk"
    unfolding Cons.prems(2) ap using Cons.prems(3) lb by simp
  have step: "CigarOpToLayoutPosList offset (fst pair) (snd pair) rec = Inr ps0"
    by (simp add: CigarOpToLayoutPosList_def Let_def Cons.prems(7) sl ps0)
  have ap': "aligned_pairs rec = (pre @ blk) @ pysam_aligned_pairs q' r' rest"
    unfolding Cons.prems(2) ap by simp
  have len': "length (pre @ blk) = offset + snd pair"
    using Cons.prems(3) lb by simp
  have b': "q' + query_length rest \<le> length (seq rec)"
    "q' + query_length rest \<le> length ?quals" "q' + query_length rest \<le> length ?agrees"
    using Cons.prems(4,5,6) q' by simp_all
  from Cons.IH [OF wr ap' len' b' Cons.prems(7), of "if fst pair = 0 \<and> fm < 0 then int offset else fm"
      "acc @ ps0"]
  obtain ps fm' where
    r: "makeLayoutTuple_loop rec rest (offset + snd pair)
          (if fst pair = 0 \<and> fm < 0 then int offset else fm) (acc @ ps0)
        = Inr ((acc @ ps0) @ ps, fm')"
    and o: "map operation ps
              = concat (map (\<lambda>pair. replicate (snd pair) (CigarOpToCigarChar (fst pair))) rest)"
    by blast
  have "makeLayoutTuple_loop rec (pair # rest) offset fm acc = Inr (acc @ (ps0 @ ps), fm')"
    using step r by simp
  moreover have "map operation (ps0 @ ps)
      = concat (map (\<lambda>pair. replicate (snd pair) (CigarOpToCigarChar (fst pair))) (pair # rest))"
    using ops0 o by simp
  ultimately show ?case by blast
qed

lemma takeWhile_replicate_append:
  "takeWhile (\<lambda>y. y = c) (replicate m c @ ys) = replicate m c @ takeWhile (\<lambda>y. y = c) ys"
  by (induction m) simp_all

lemma dropWhile_replicate_append:
  "dropWhile (\<lambda>y. y = c) (replicate m c @ ys) = dropWhile (\<lambda>y. y = c) ys"
  by (induction m) simp_all

lemma groupby_len_run:
  assumes "0 < n" and "ys = [] \<or> hd ys \<noteq> c"
  shows "groupby_len (replicate n c @ ys) = (c, n) # groupby_len ys"
proof -
  obtain m where n: "n = Suc m" using assms(1) by (cases n) auto
  have tw: "takeWhile (\<lambda>y. y = c) ys = []" and dw: "dropWhile (\<lambda>y. y = c) ys = ys"
    using assms(2) by (cases ys; simp)+
  show ?thesis
    by (simp add: n takeWhile_replicate_append dropWhile_replicate_append tw dw)
qed

lemma cigar_wf_head: "cigar_wf (pair # rest) \<Longrightarrow> layout_op pair \<and> 0 < snd pair"
  by (cases rest) (auto simp: layout_op_def)

lemma cigar_wf_layout_op: "cigar_wf cg \<Longrightarrow> list_all layout_op cg"
  by (induction cg rule: cigar_wf.induct) (auto simp: layout_op_def)

lemma CigarChar_inj:
  assumes "layout_op a" and "layout_op b" and "fst a \<noteq> fst b"
  shows "CigarOpToCigarChar (fst a) \<noteq> CigarOpToCigarChar (fst b)"
  using assms by (auto simp: layout_op_def CigarChar_values)

lemma groupby_len_expand:
  assumes "cigar_wf cg"
  shows "groupby_len (concat (map (\<lambda>pair. replicate (snd pair) (CigarOpToCigarChar (fst pair))) cg))
           = map (\<lambda>pair. (CigarOpToCigarChar (fst pair), snd pair)) cg"
  using assms
proof (induction cg rule: cigar_wf.induct)
  case 1
  then show ?case by simp
next
  case (2 pair)
  then show ?case using groupby_len_run [of "snd pair" "[]"] by simp
next
  case (3 pair pair' rest)
  let ?e = "\<lambda>pair. replicate (snd pair) (CigarOpToCigarChar (fst pair))"
  have wf': "cigar_wf (pair' # rest)" and n: "0 < snd pair" and d: "fst pair \<noteq> fst pair'"
    using "3.prems" by simp_all
  have w: "layout_op pair" "layout_op pair'" and n': "0 < snd pair'"
    using cigar_wf_head [OF "3.prems"] cigar_wf_head [OF wf'] by simp_all
  have "hd (concat (map ?e (pair' # rest))) = CigarOpToCigarChar (fst pair')"
    using n' by (cases "snd pair'") simp_all
  then have h: "concat (map ?e (pair' # rest)) = []
      \<or> hd (concat (map ?e (pair' # rest))) \<noteq> CigarOpToCigarChar (fst pair)"
    using CigarChar_inj [OF w d] by simp
  have "groupby_len (concat (map ?e (pair # pair' # rest)))
      = groupby_len (replicate (snd pair) (CigarOpToCigarChar (fst pair))
                       @ concat (map ?e (pair' # rest)))"
    by simp
  also have "\<dots> = (CigarOpToCigarChar (fst pair), snd pair)
                    # groupby_len (concat (map ?e (pair' # rest)))"
    by (rule groupby_len_run [OF n h])
  finally show ?case using "3.IH" [OF wf'] by simp
qed

text \<open>
  For every well-formed aligned read that carries an FA tag (CIGAR over M, I, D and S in
  run-length normal form with positive lengths, leading and trailing soft clips and
  inner insertions and deletions included), building the layout succeeds, and collapsing
  the operations of its positions into runs gives back the CIGAR, run for run: the same
  operation characters with the same lengths in the same order. The CIGAR string of the
  layout is therefore the concatenation of the original runs as \<open>opLenToStr\<close> writes
  them.
\<close>

lemma cigar_layout_roundtrip_tagged:
  assumes "read_wf start rec" and "FA_tag rec = Some fa"
  shows "\<exists>L. fromread rec = Inr L
           \<and> groupby_len (getOperations L)
               = map (\<lambda>pair. (CigarOpToCigarChar (fst pair), snd pair)) (cigar rec)
           \<and> cGetCigarString opLenToStr L
               = concat (map (\<lambda>pair. opLenToStr (CigarOpToCigarChar (fst pair)) (snd pair))
                           (cigar rec))"
proof -
  have wf: "cigar_wf (cigar rec)"
    and ap: "aligned_pairs rec = [] @ pysam_aligned_pairs 0 start (cigar rec)"
    and l: "0 + query_length (cigar rec) \<le> length (seq rec)"
      "0 + query_length (cigar rec) \<le> length (quals_of rec)"
    using assms(1) by (simp_all add: read_wf_def)
  have ag: "agrees_of rec = Inr fa"
    using assms(2) by (simp add: agrees_of_def)
  have la: "0 + query_length (cigar rec) \<le> length fa"
    using assms by (simp add: read_wf_def)
  from makeLayoutTuple_loop_operations [OF cigar_wf_layout_op [OF wf] ap _ l la ag,
      of 0 "- 1" "[]"]
  obtain ps fm' where
    r: "makeLayoutTuple_loop rec (cigar rec) 0 (- 1) [] = Inr (ps, fm')"
    and o: "map operation ps
              = concat (map (\<lambda>pair. replicate (snd pair) (CigarOpToCigarChar (fst pair)))
                          (cigar rec))"
    by auto
  let ?L = "\<lparr>positions = ps, firstMapped = fm', isMerged = (MP_tag rec = Some ''T'')\<rparr>"
  have f: "fromread rec = Inr ?L" by (simp add: fromread_def r)
  have g: "groupby_len (getOperations ?L)
             = map (\<lambda>pair. (CigarOpToCigarChar (fst pair), snd pair)) (cigar rec)"
    by (simp add: getOperations_def o groupby_len_expand [OF wf])
  have s: "cGetCigarString opLenToStr ?L
             = concat (map (\<lambda>pair. opLenToStr (CigarOpToCigarChar (fst pair)) (snd pair))
                         (cigar rec))"
    unfolding cGetCigarString_def g by (simp add: o_def)
  show ?thesis using f g s by blast
qed

lemma read_1S2M1I1D1M_wf: "read_wf 100 read_1S2M1I1D1M"
  unfolding read_wf_def read_1S2M1I1D1M_def
  by (simp add: upt_rec quals_of_def)

lemma cigar_layout_roundtrip_tagged_example:
  "read_wf 100 read_1S2M1I1D1M
   \<and> (\<exists>L. fromread read_1S2M1I1D1M = Inr L
          \<and> groupby_len (getOperations L) = [(83, 1), (77, 2), (73, 1), (68, 1), (77, 1)])"
proof -
  have c: "map (\<lambda>pair. (CigarOpToCigarChar (fst pair), snd pair)) (cigar read_1S2M1I1D1M)
             = [(83, 1), (77, 2), (73, 1), (68, 1), (77, 1)]"
    by (simp add: read_1S2M1I1D1M_def CigarChar_values)
  have t: "FA_tag read_1S2M1I1D1M = Some [1, 3, 3, 2, 3]"
    by (simp add: read_1S2M1I1D1M_def)
  from cigar_layout_roundtrip_tagged [OF read_1S2M1I1D1M_wf t] obtain L where
    "fromread read_1S2M1I1D1M = Inr L"
    "groupby_len (getOperations L)
       = map (\<lambda>pair. (CigarOpToCigarChar (fst pair), snd pair)) (cigar read_1S2M1I1D1M)"
    by blast
  then show ?thesis using read_1S2M1I1D1M_wf unfolding c by blast
qed

text \<open>
  A read without FA tag and without an attribute \<open>sequence\<close> gets no layout: the first
  CIGAR operation already raises \<open>AttributeError\<close>, at \<open>len(rec.sequence)\<close>.
\<close>

lemma fromread_without_FA:
  assumes "FA_tag rec = None" and "sequence_attr rec = None" and "cigar rec \<noteq> []"
  shows "fromread rec = Inl AttributeError"
proof -
  from assms(3) obtain pair rest where c: "cigar rec = pair # rest"
    by (cases "cigar rec") simp_all
  have "CigarOpToLayoutPosList 0 (fst pair) (snd pair) rec = Inl AttributeError"
    using assms(1,2) by (simp add: CigarOpToLayoutPosList_def agrees_of_def Let_def)
  then show ?thesis by (simp add: fromread_def c)
qed

text \<open>
  A run of the sequence-match operation comes back as a run of M: every aligned pair
  with both positions is given the operation M, whatever the operation of the CIGAR.
\<close>

lemma sequence_match_run_becomes_M:
  "map (\<lambda>pair. (CigarOpToCigarChar (fst pair), snd pair)) (cigar read_3EQ) = [(61, 3)]
   \<and> (\<exists>L. fromread read_3EQ = Inr L \<and> getOperations L = [77, 77, 77]
          \<and> groupby_len (getOperations L) = [(77, 3)])"
proof -
  have c: "map (\<lambda>pair. (CigarOpToCigarChar (fst pair), snd pair)) (cigar read_3EQ) = [(61, 3)]"
    by (simp add: read_3EQ_def CigarOpToCigarChar_def)
  have f: "fromread read_3EQ
      = Inr \<lparr>positions = [LayoutPos_init 100 0 65 77 30 1 False 1,
                            LayoutPos_init 101 1 67 77 30 1 False 1,
                            LayoutPos_init 102 2 71 77 30 1 False 1],
             firstMapped = - 1, isMerged = False\<rparr>"
    by (simp add: fromread_def read_3EQ_def CigarOpToLayoutPosList_def agrees_of_def
        quals_of_def layout_of_pair_def read_pos_def py_index_def Let_def)
  have g: "groupby_len (replicate 3 (77::int) @ []) = (77, 3) # groupby_len []"
    by (rule groupby_len_run) simp_all
  have g': "groupby_len [77, 77, 77 :: int] = [(77, 3)]"
    using g by (simp add: numeral_3_eq_3)
  show ?thesis
    unfolding f using c g' by (simp add: getOperations_def)
qed

text \<open>
  Claim C6. The round trip fails for a well-formed aligned read that has no FA tag. The
  read with CIGAR 1S2M1I1D1M (a leading soft clip, an inner insertion and an inner
  deletion) is well formed, and building its layout raises \<open>AttributeError\<close>: no
  layout is built, so no CIGAR can be recovered from it.
\<close>

theorem fromread_untagged_raises:
  "read_wf 100 read_1S2M1I1D1M_untagged
   \<and> FA_tag read_1S2M1I1D1M_untagged = None
   \<and> fromread read_1S2M1I1D1M_untagged = Inl AttributeError"
proof -
  have w: "read_wf 100 read_1S2M1I1D1M_untagged"
    unfolding read_wf_def read_1S2M1I1D1M_untagged_def read_1S2M1I1D1M_def
    by (simp add: upt_rec quals_of_def)
  have t: "FA_tag read_1S2M1I1D1M_untagged = None"
    "sequence_attr read_1S2M1I1D1M_untagged = None"
    "cigar read_1S2M1I1D1M_untagged \<noteq> []"
    by (simp_all add: read_1S2M1I1D1M_untagged_def read_1S2M1I1D1M_def)
  show ?thesis using w t(1) fromread_without_FA [OF t] by simp
qed

end
